theory Spec2Isabelle
  imports Complex_Main "HOL-Library.Log_Nat" "HOL-Library.Sublist"
begin

section \<open>JavaScript Number values\<close>

text \<open>
  \<^verbatim>\<open>script.js\<close> computes with JavaScript Numbers, that is IEEE 754 binary64 values. A Number is
  \<open>NaN\<close>, one of the two infinities, negative zero, or a finite value, kept here as the exact
  rational it denotes (\<open>Fin 0\<close> is positive zero). Every arithmetic operation computes the exact
  rational result and rounds it to the nearest binary64 value, ties to even (\<open>rnd\<close>).
\<close>

datatype jsnum = NaN | PInf | NInf | NZero | Fin rat

text \<open>\<open>ilog2 a\<close> is the binary exponent of a positive rational: \<open>2^e \<le> a < 2^(e+1)\<close>.\<close>

definition ilog2 :: "rat \<Rightarrow> int" where
  "ilog2 a = (let (p, d) = quotient_of a;
                  k = int (floorlog 2 (nat p)) - int (floorlog 2 (nat d))
              in if 2 powi k \<le> a then k else k - 1)"

definition round_half_even :: "rat \<Rightarrow> int" where
  "round_half_even x = (let f = \<lfloor>x\<rfloor>; r = x - of_int f
     in if r < 1 / 2 then f else if 1 / 2 < r then f + 1 else if even f then f else f + 1)"

text \<open>
  Rounding of a magnitude: 53 significant bits, the exponent of the last bit never below
  \<open>-1074\<close> (subnormal numbers).
\<close>

definition round_mag :: "rat \<Rightarrow> rat" where
  "round_mag a = (let ex = max (ilog2 a) (- 1022) - 52
                  in of_int (round_half_even (a / 2 powi ex)) * 2 powi ex)"

definition rnd :: "rat \<Rightarrow> jsnum" where
  "rnd q = (let v = round_mag \<bar>q\<bar> in
     if 2 powi 1024 \<le> v then (if q < 0 then NInf else PInf)
     else if v = 0 then (if q < 0 then NZero else Fin 0)
     else Fin (if q < 0 then - v else v))"

text \<open>A decimal literal of the source text denotes the Number nearest to it.\<close>

definition lit :: "rat \<Rightarrow> jsnum" where
  "lit q = rnd q"

definition is_inf :: "jsnum \<Rightarrow> bool" where
  "is_inf x = (x = PInf \<or> x = NInf)"

definition is_zero :: "jsnum \<Rightarrow> bool" where
  "is_zero x = (x = NZero \<or> x = Fin 0)"

fun sign_neg :: "jsnum \<Rightarrow> bool" where
  "sign_neg NaN = False"
| "sign_neg PInf = False"
| "sign_neg NInf = True"
| "sign_neg NZero = True"
| "sign_neg (Fin q) = (q < 0)"

fun fin_val :: "jsnum \<Rightarrow> rat" where
  "fin_val (Fin q) = q"
| "fin_val _ = 0"

definition signed_zero :: "bool \<Rightarrow> jsnum" where
  "signed_zero neg = (if neg then NZero else Fin 0)"

definition signed_inf :: "bool \<Rightarrow> jsnum" where
  "signed_inf neg = (if neg then NInf else PInf)"

text \<open>Unary minus.\<close>

fun fneg :: "jsnum \<Rightarrow> jsnum" where
  "fneg NaN = NaN"
| "fneg PInf = NInf"
| "fneg NInf = PInf"
| "fneg NZero = Fin 0"
| "fneg (Fin q) = (if q = 0 then NZero else Fin (- q))"

text \<open>The operators \<^verbatim>\<open>*\<close>, \<^verbatim>\<open>+\<close> and \<^verbatim>\<open>/\<close> on Numbers.\<close>

definition fmul :: "jsnum \<Rightarrow> jsnum \<Rightarrow> jsnum" where
  "fmul x y =
     (if x = NaN \<or> y = NaN then NaN
      else if is_inf x \<or> is_inf y then
        (if is_zero x \<or> is_zero y then NaN else signed_inf (sign_neg x \<noteq> sign_neg y))
      else if is_zero x \<or> is_zero y then signed_zero (sign_neg x \<noteq> sign_neg y)
      else rnd (fin_val x * fin_val y))"

definition fadd :: "jsnum \<Rightarrow> jsnum \<Rightarrow> jsnum" where
  "fadd x y =
     (if x = NaN \<or> y = NaN then NaN
      else if is_inf x then (if is_inf y \<and> x \<noteq> y then NaN else x)
      else if is_inf y then y
      else let s = fin_val x + fin_val y in
        if s = 0 then (if x = NZero \<and> y = NZero then NZero else Fin 0) else rnd s)"

definition fdiv :: "jsnum \<Rightarrow> jsnum \<Rightarrow> jsnum" where
  "fdiv x y =
     (if x = NaN \<or> y = NaN then NaN
      else if is_inf x then (if is_inf y then NaN else signed_inf (sign_neg x \<noteq> sign_neg y))
      else if is_inf y then signed_zero (sign_neg x \<noteq> sign_neg y)
      else if is_zero y then
        (if is_zero x then NaN else signed_inf (sign_neg x \<noteq> sign_neg y))
      else if is_zero x then signed_zero (sign_neg x \<noteq> sign_neg y)
      else rnd (fin_val x / fin_val y))"

text \<open>The comparisons \<^verbatim>\<open><\<close> and \<^verbatim>\<open><=\<close>: false as soon as one side is \<open>NaN\<close>.\<close>

fun flt :: "jsnum \<Rightarrow> jsnum \<Rightarrow> bool" where
  "flt NaN _ = False"
| "flt _ NaN = False"
| "flt PInf _ = False"
| "flt _ NInf = False"
| "flt NInf _ = True"
| "flt _ PInf = True"
| "flt x y = (fin_val x < fin_val y)"

fun fle :: "jsnum \<Rightarrow> jsnum \<Rightarrow> bool" where
  "fle NaN _ = False"
| "fle _ NaN = False"
| "fle NInf _ = True"
| "fle _ PInf = True"
| "fle PInf _ = False"
| "fle _ NInf = False"
| "fle x y = (fin_val x \<le> fin_val y)"

definition isNaN :: "jsnum \<Rightarrow> bool" where
  "isNaN x = (x = NaN)"

text \<open>
  \<^verbatim>\<open>Math.round\<close>: the nearest integer, a tie going towards \<open>+\<infinity>\<close>; the sign of a zero result
  is the sign of the argument.
\<close>

fun math_round :: "jsnum \<Rightarrow> jsnum" where
  "math_round (Fin q) =
     (let r = \<lfloor>q + 1 / 2\<rfloor> in if r = 0 then signed_zero (q < 0) else Fin (of_int r))"
| "math_round x = x"

section \<open>parseFloat\<close>

text \<open>
  A JavaScript string is a sequence of UTF-16 code units, kept here as natural numbers;
  \<open>utf16\<close> gives the code units of a text written with characters below 256. \<^verbatim>\<open>parseFloat\<close>
  skips leading white space and line terminators, reads the longest prefix that is a decimal
  literal (optional sign, then \<^verbatim>\<open>Infinity\<close> or digits with an optional fraction and an optional
  exponent) and returns the Number nearest to the value of that prefix, correctly rounded;
  it returns \<open>NaN\<close> when there is no such prefix. A zero value keeps the sign of the text.
\<close>

type_synonym jsstring = "nat list"

definition utf16 :: "string \<Rightarrow> jsstring" where
  "utf16 s = map of_char s"

text \<open>
  The white space and line terminator code points of ECMAScript: TAB, LF, VT, FF, CR, SP,
  NBSP, U+1680, U+2000 to U+200A, LS, PS, U+202F, U+205F, U+3000 and U+FEFF. All of them are
  single code units.
\<close>

definition is_ws :: "nat \<Rightarrow> bool" where
  "is_ws c = (c \<in> set [0x09, 0x0A, 0x0B, 0x0C, 0x0D, 0x20, 0xA0, 0x1680,
       0x2000, 0x2001, 0x2002, 0x2003, 0x2004, 0x2005, 0x2006, 0x2007, 0x2008, 0x2009, 0x200A,
       0x2028, 0x2029, 0x202F, 0x205F, 0x3000, 0xFEFF])"

definition is_digit :: "nat \<Rightarrow> bool" where
  "is_digit c = (of_char CHR ''0'' \<le> c \<and> c \<le> of_char CHR ''9'')"

definition digit_val :: "nat \<Rightarrow> nat" where
  "digit_val c = c - of_char CHR ''0''"

definition digits_val :: "jsstring \<Rightarrow> nat" where
  "digits_val ds = foldl (\<lambda>n c. 10 * n + digit_val c) 0 ds"

fun strip_sign :: "jsstring \<Rightarrow> bool \<times> jsstring" where
  "strip_sign [] = (False, [])"
| "strip_sign (c # r) =
     (if c = of_char CHR ''-'' then (True, r)
      else if c = of_char CHR ''+'' then (False, r) else (False, c # r))"

definition exponent_part :: "jsstring \<Rightarrow> int" where
  "exponent_part r =
     (case r of
        [] \<Rightarrow> 0
      | c # r' \<Rightarrow>
          if c = of_char CHR ''e'' \<or> c = of_char CHR ''E'' then
            (let (neg, ds) = strip_sign r'; d = takeWhile is_digit ds
             in if d = [] then 0 else if neg then - int (digits_val d) else int (digits_val d))
          else 0)"

definition fraction_part :: "jsstring \<Rightarrow> jsstring \<times> jsstring" where
  "fraction_part r =
     (case r of
        [] \<Rightarrow> ([], [])
      | c # r' \<Rightarrow>
          if c = of_char CHR ''.'' then (takeWhile is_digit r', dropWhile is_digit r')
          else ([], r))"

definition parseFloat :: "jsstring \<Rightarrow> jsnum" where
  "parseFloat s =
     (let (neg, u) = strip_sign (dropWhile is_ws s) in
      if take 8 u = utf16 ''Infinity'' then signed_inf neg
      else
        let ip = takeWhile is_digit u;
            (fp, r) = fraction_part (dropWhile is_digit u)
        in if ip = [] \<and> fp = [] then NaN
           else
             let mv = of_nat (digits_val (ip @ fp)) * 10 powi (exponent_part r - int (length fp))
             in if mv = 0 then signed_zero neg else rnd (if neg then - mv else mv))"

section \<open>The page and the script\<close>

text \<open>
  The state of the page as far as \<^verbatim>\<open>predict\<close> reads and writes it. The script looks every
  element up with \<^verbatim>\<open>getElementById\<close> when it is loaded, and a lookup that fails gives \<^verbatim>\<open>null\<close>.
  For the eight numeric inputs and for the management select, \<open>None\<close> stands for an element
  the page does not have and \<open>Some v\<close> for an element whose value is \<open>v\<close>: a numeric input is
  read through \<^verbatim>\<open>input?.value ?? ''\<close>, the management select through \<^verbatim>\<open>managementSelect.value\<close>
  (line 140), which throws a \<^verbatim>\<open>TypeError\<close> on \<^verbatim>\<open>null\<close>. The crop select is dereferenced while
  the script is loaded (line 68), before \<^verbatim>\<open>predict\<close> is registered as a listener (line 89):
  whenever \<^verbatim>\<open>predict\<close> runs the crop select exists, and the record keeps its value. The error
  element and the result field are the outputs of \<^verbatim>\<open>predict\<close>, which writes them on every
  path; the record keeps the properties written. The listener of lines 68-87 only shows and
  hides sections of the form and is left out.
\<close>

record page =
  cropSelect :: string
  managementSelect :: "string option"
  tmArea :: "jsstring option"
  tmRainfall :: "jsstring option"
  tmFert :: "jsstring option"
  gRainSep :: "jsstring option"
  gRainOct :: "jsstring option"
  gRainNov :: "jsstring option"
  gArea :: "jsstring option"
  gFert :: "jsstring option"
  errorMsg_textContent :: string
  errorMsg_display :: string
  resultInput :: string

text \<open>Lines 40-44. \<open>None\<close> as a result is \<^verbatim>\<open>null\<close>.\<close>

definition parseNumber :: "jsstring option \<Rightarrow> jsnum option" where
  "parseNumber input =
     (let val = parseFloat (case input of None \<Rightarrow> [] | Some v \<Rightarrow> v)
      in if isNaN val then None else Some val)"

text \<open>Lines 50-54 and 59-63.\<close>

definition showError :: "string \<Rightarrow> page \<Rightarrow> page" where
  "showError msg p = p\<lparr>errorMsg_textContent := msg, errorMsg_display := ''block'', resultInput := []\<rparr>"

definition clearErrorAndResult :: "page \<Rightarrow> page" where
  "clearErrorAndResult p =
     p\<lparr>errorMsg_display := ''none'', errorMsg_textContent := [], resultInput := []\<rparr>"

text \<open>
  The ways in which a block of the \<^verbatim>\<open>switch\<close> ends before its \<^verbatim>\<open>break\<close>: the script calls
  \<^verbatim>\<open>showError(msg)\<close> and returns, or an exception is thrown.
\<close>

datatype error = TypeError

datatype abrupt = Rejected string | Thrown error

text \<open>
  The three blocks of the \<^verbatim>\<open>switch\<close>. Each returns \<open>Inl (Rejected msg)\<close> where the script
  calls \<^verbatim>\<open>showError(msg)\<close> and returns, \<open>Inl (Thrown e)\<close> where it throws, and
  \<open>Inr (predictedYield, label)\<close> where it reaches \<^verbatim>\<open>break\<close>. A test \<^verbatim>\<open>x === null || x <= 0\<close> is the
  \<open>None\<close> branch followed by the comparison.
\<close>

text \<open>Lines 106-133.\<close>

definition case_tur :: "page \<Rightarrow> abrupt + jsnum \<times> string" where
  "case_tur p =
     (let area = parseNumber (tmArea p);
          rain = parseNumber (tmRainfall p);
          fert = parseNumber (tmFert p)
      in case area of
           None \<Rightarrow> Inl (Rejected ''Enter a valid positive area for Tur.'')
         | Some area \<Rightarrow>
      if fle area (lit 0) then Inl (Rejected ''Enter a valid positive area for Tur.'')
      else (case rain of
           None \<Rightarrow> Inl (Rejected ''Enter rainfall (mm) for Tur.'')
         | Some rain \<Rightarrow>
      if flt rain (lit 0) then Inl (Rejected ''Enter rainfall (mm) for Tur.'')
      else (case fert of
           None \<Rightarrow> Inl (Rejected ''Enter fertilizers (kg) for Tur.'')
         | Some fert \<Rightarrow>
      if flt fert (lit 0) then Inl (Rejected ''Enter fertilizers (kg) for Tur.'')
      else Inr (fadd (fadd (fadd (fneg (lit 3.32843850766629))
                                 (fmul (lit 0.00459239788361382) rain))
                           (fmul (lit 4.33370044211268) area))
                     (fmul (lit 0.0763918341341603) fert),
                '' (Tur)''))))"

text \<open>
  Lines 135-178. Line 140 reads \<^verbatim>\<open>managementSelect.value\<close> after the three numeric inputs
  are parsed and before any of the checks.
\<close>

definition case_maize :: "page \<Rightarrow> abrupt + jsnum \<times> string" where
  "case_maize p =
     (let areaM = parseNumber (tmArea p);
          rainM = parseNumber (tmRainfall p);
          fertM = parseNumber (tmFert p)
      in case managementSelect p of
           None \<Rightarrow> Inl (Thrown TypeError)
         | Some mgmt \<Rightarrow>
     (case areaM of
           None \<Rightarrow> Inl (Rejected ''Enter a valid positive area for Maize.'')
         | Some areaM \<Rightarrow>
      if fle areaM (lit 0) then Inl (Rejected ''Enter a valid positive area for Maize.'')
      else (case rainM of
           None \<Rightarrow> Inl (Rejected ''Enter rainfall (mm) for Maize.'')
         | Some rainM \<Rightarrow>
      if flt rainM (lit 0) then Inl (Rejected ''Enter rainfall (mm) for Maize.'')
      else (case fertM of
           None \<Rightarrow> Inl (Rejected ''Enter fertilizers (kg) for Maize.'')
         | Some fertM \<Rightarrow>
      if flt fertM (lit 0) then Inl (Rejected ''Enter fertilizers (kg) for Maize.'')
      else if mgmt = [] then Inl (Rejected ''Select quality of management for Maize.'')
      else
        let baseMaize = fadd (fadd (fadd (fneg (lit 23.81399768))
                                         (fmul (lit 0.039441256) rainM))
                                   (fmul (lit 13.03528484) areaM))
                             (fmul (lit 0.031329566) fertM);
            (mgmtFactor, label) =
              (if mgmt = ''poor'' then (lit 0.75, '' (Maize, Poor management)'')
               else (lit 1.0, '' (Maize, Good management)''))
        in Inr (fmul baseMaize mgmtFactor, label)))))"

text \<open>Lines 180-212.\<close>

definition case_gram :: "page \<Rightarrow> abrupt + jsnum \<times> string" where
  "case_gram p =
     (let rSep = parseNumber (gRainSep p);
          rOct = parseNumber (gRainOct p);
          rNov = parseNumber (gRainNov p);
          areaG = parseNumber (gArea p);
          fertG = parseNumber (gFert p);
          rainMsg = ''Enter rainfall for September, October, and November for Gram.''
      in case rSep of None \<Rightarrow> Inl (Rejected rainMsg) | Some rSep \<Rightarrow>
      if flt rSep (lit 0) then Inl (Rejected rainMsg)
      else (case rOct of None \<Rightarrow> Inl (Rejected rainMsg) | Some rOct \<Rightarrow>
      if flt rOct (lit 0) then Inl (Rejected rainMsg)
      else (case rNov of None \<Rightarrow> Inl (Rejected rainMsg) | Some rNov \<Rightarrow>
      if flt rNov (lit 0) then Inl (Rejected rainMsg)
      else (case areaG of
           None \<Rightarrow> Inl (Rejected ''Enter a valid positive area for Gram.'')
         | Some areaG \<Rightarrow>
      if fle areaG (lit 0) then Inl (Rejected ''Enter a valid positive area for Gram.'')
      else (case fertG of
           None \<Rightarrow> Inl (Rejected ''Enter fertilizers (kg) for Gram.'')
         | Some fertG \<Rightarrow>
      if flt fertG (lit 0) then Inl (Rejected ''Enter fertilizers (kg) for Gram.'')
      else Inr (fadd (fadd (fadd (fadd (fadd (lit 57.91029391)
                                             (fmul (lit 9.450850118) areaG))
                                       (fmul (fneg (lit 0.577080551)) rSep))
                                 (fmul (lit 0.069920447) rOct))
                           (fmul (lit 0.278021178) rNov))
                     (fmul (fneg (lit 0.006839212)) fertG),
                '' (Gram)''))))))"

text \<open>Lines 96-217: the test of the crop and the \<^verbatim>\<open>switch\<close>.\<close>

definition predict_switch :: "page \<Rightarrow> abrupt + jsnum \<times> string" where
  "predict_switch p =
     (let crop = cropSelect p in
      if crop = [] then Inl (Rejected ''Please select a crop.'')
      else if crop = ''tur'' then case_tur p
      else if crop = ''maize'' then case_maize p
      else if crop = ''gram'' then case_gram p
      else Inl (Rejected ''No formula defined for this crop.''))"

text \<open>Lines 220-225: the clamp and the rounding.\<close>

definition clamp :: "jsnum \<Rightarrow> jsnum" where
  "clamp y = (if flt y (lit 0) then lit 0 else y)"

definition round2 :: "jsnum \<Rightarrow> jsnum" where
  "round2 y = fdiv (math_round (fmul y (lit 100))) (lit 100)"

text \<open>
  Lines 93-227. The result is \<open>Inr\<close> of the page that \<^verbatim>\<open>predict\<close> leaves when it returns, and
  \<open>Inl\<close> of the exception when it throws. The conversion of a Number to text inside the
  template literal of line 226 is the host's; it is the parameter \<open>numToString\<close>.
\<close>

definition predict :: "(jsnum \<Rightarrow> string) \<Rightarrow> page \<Rightarrow> error + page" where
  "predict numToString p0 =
     (let p = clearErrorAndResult p0 in
      case predict_switch p of
        Inl (Rejected msg) \<Rightarrow> Inr (showError msg p)
      | Inl (Thrown e) \<Rightarrow> Inl e
      | Inr (predictedYield, label) \<Rightarrow>
          Inr (p\<lparr>resultInput :=
                  numToString (round2 (clamp predictedYield)) @ '' quintals (approx.)'' @ label\<rparr>))"

section \<open>Notions used in the statements\<close>

text \<open>
  A Number is a binary64 value when rounding leaves its finite value unchanged. The type
  \<open>jsnum\<close> has a finite value for every rational; the operations return binary64 values only.
\<close>

definition is_double :: "jsnum \<Rightarrow> bool" where
  "is_double x = (case x of Fin q \<Rightarrow> rnd q = Fin q | _ \<Rightarrow> True)"

text \<open>What one run of the \<^verbatim>\<open>switch\<close> reports.\<close>

definition result_error :: "abrupt + jsnum \<times> string \<Rightarrow> string option" where
  "result_error r = (case r of Inl (Rejected msg) \<Rightarrow> Some msg | _ \<Rightarrow> None)"

definition result_yield :: "abrupt + jsnum \<times> string \<Rightarrow> jsnum option" where
  "result_yield r = (case r of Inl _ \<Rightarrow> None | Inr (y, _) \<Rightarrow> Some y)"

definition result_label :: "abrupt + jsnum \<times> string \<Rightarrow> string option" where
  "result_label r = (case r of Inl _ \<Rightarrow> None | Inr (_, l) \<Rightarrow> Some l)"

subsection \<open>The regression as the specification words it\<close>

text \<open>
  \<open>result = intercept + \<Sum> (coefficient_i * input_i)\<close>, the terms added from left to right in
  the order the specification lists them.
\<close>

definition linreg :: "rat \<Rightarrow> (rat \<times> jsnum) list \<Rightarrow> jsnum" where
  "linreg intercept terms = foldl (\<lambda>acc (c, x). fadd acc (fmul (lit c) x)) (lit intercept) terms"

text \<open>
  The management factor: 1.0 for Good, 0.75 for Poor. (The specification gives no factor for
  another selection; the script uses 1.0 for it.)
\<close>

definition managementFactor :: "string \<Rightarrow> rat" where
  "managementFactor m = (if m = ''poor'' then 0.75 else 1.0)"

definition spec_tur :: "jsnum \<Rightarrow> jsnum \<Rightarrow> jsnum \<Rightarrow> jsnum" where
  "spec_tur area rainfall fertilizer =
     linreg (- 3.32843850766629)
       [(0.00459239788361382, rainfall), (4.33370044211268, area), (0.0763918341341603, fertilizer)]"

definition spec_maize_base :: "jsnum \<Rightarrow> jsnum \<Rightarrow> jsnum \<Rightarrow> jsnum" where
  "spec_maize_base area rainfall fertilizer =
     linreg (- 23.81399768)
       [(0.039441256, rainfall), (13.03528484, area), (0.031329566, fertilizer)]"

definition spec_maize :: "jsnum \<Rightarrow> jsnum \<Rightarrow> jsnum \<Rightarrow> string \<Rightarrow> jsnum" where
  "spec_maize area rainfall fertilizer management =
     fmul (spec_maize_base area rainfall fertilizer) (lit (managementFactor management))"

definition spec_gram :: "jsnum \<Rightarrow> jsnum \<Rightarrow> jsnum \<Rightarrow> jsnum \<Rightarrow> jsnum \<Rightarrow> jsnum" where
  "spec_gram area rainSeptember rainOctober rainNovember fertilizer =
     linreg 57.91029391
       [(9.450850118, area), (- 0.577080551, rainSeptember), (0.069920447, rainOctober),
        (0.278021178, rainNovember), (- 0.006839212, fertilizer)]"

text \<open>
  The regression of the selected crop on the parsed fields, when all of them are numbers
  (and, for Maize, the management select has a value).
\<close>

definition regression :: "page \<Rightarrow> jsnum option" where
  "regression p =
     (if cropSelect p = ''tur'' then
        (case (parseNumber (tmArea p), parseNumber (tmRainfall p), parseNumber (tmFert p)) of
           (Some a, Some r, Some f) \<Rightarrow> Some (spec_tur a r f)
         | _ \<Rightarrow> None)
      else if cropSelect p = ''maize'' then
        (case (parseNumber (tmArea p), parseNumber (tmRainfall p), parseNumber (tmFert p),
               managementSelect p) of
           (Some a, Some r, Some f, Some m) \<Rightarrow> Some (spec_maize a r f m)
         | _ \<Rightarrow> None)
      else if cropSelect p = ''gram'' then
        (case (parseNumber (gArea p), parseNumber (gRainSep p), parseNumber (gRainOct p),
               parseNumber (gRainNov p), parseNumber (gFert p)) of
           (Some a, Some r9, Some r10, Some r11, Some f) \<Rightarrow> Some (spec_gram a r9 r10 r11 f)
         | _ \<Rightarrow> None)
      else None)"

subsection \<open>Validation as an ordered list of checks\<close>

text \<open>A field fails its check when it is not a number or is out of range.\<close>

definition not_positive :: "jsstring option \<Rightarrow> bool" where
  "not_positive input = (case parseNumber input of None \<Rightarrow> True | Some x \<Rightarrow> fle x (lit 0))"

definition negative :: "jsstring option \<Rightarrow> bool" where
  "negative input = (case parseNumber input of None \<Rightarrow> True | Some x \<Rightarrow> flt x (lit 0))"

text \<open>The first failing check of a list of (fails, message) pairs.\<close>

definition first_failure :: "(bool \<times> string) list \<Rightarrow> string option" where
  "first_failure cs = map_option snd (find fst cs)"

definition crop_checks :: "page \<Rightarrow> (bool \<times> string) list" where
  "crop_checks p =
     [(cropSelect p = [], ''Please select a crop.''),
      (cropSelect p \<notin> set [''tur'', ''maize'', ''gram''], ''No formula defined for this crop.'')]"

definition area_check :: "page \<Rightarrow> bool \<times> string" where
  "area_check p =
     (if cropSelect p = ''tur'' then (not_positive (tmArea p), ''Enter a valid positive area for Tur.'')
      else if cropSelect p = ''maize'' then
        (not_positive (tmArea p), ''Enter a valid positive area for Maize.'')
      else (not_positive (gArea p), ''Enter a valid positive area for Gram.''))"

definition rainfall_check :: "page \<Rightarrow> bool \<times> string" where
  "rainfall_check p =
     (if cropSelect p = ''tur'' then (negative (tmRainfall p), ''Enter rainfall (mm) for Tur.'')
      else if cropSelect p = ''maize'' then (negative (tmRainfall p), ''Enter rainfall (mm) for Maize.'')
      else (negative (gRainSep p) \<or> negative (gRainOct p) \<or> negative (gRainNov p),
            ''Enter rainfall for September, October, and November for Gram.''))"

definition fertilizer_check :: "page \<Rightarrow> bool \<times> string" where
  "fertilizer_check p =
     (if cropSelect p = ''tur'' then (negative (tmFert p), ''Enter fertilizers (kg) for Tur.'')
      else if cropSelect p = ''maize'' then (negative (tmFert p), ''Enter fertilizers (kg) for Maize.'')
      else (negative (gFert p), ''Enter fertilizers (kg) for Gram.''))"

text \<open>The management check fails when the selection is empty.\<close>

definition management_check :: "page \<Rightarrow> bool \<times> string" where
  "management_check p =
     (cropSelect p = ''maize'' \<and> managementSelect p = Some [],
      ''Select quality of management for Maize.'')"

text \<open>
  The order the specification states for every crop: crop, area, rainfall, fertilizer,
  management.
\<close>

definition spec_checks :: "page \<Rightarrow> (bool \<times> string) list" where
  "spec_checks p =
     crop_checks p @ [area_check p, rainfall_check p, fertilizer_check p, management_check p]"

text \<open>The same checks with rainfall before area for Gram.\<close>

definition ordered_checks :: "page \<Rightarrow> (bool \<times> string) list" where
  "ordered_checks p =
     crop_checks p @
     (if cropSelect p = ''gram'' then [rainfall_check p, area_check p, fertilizer_check p]
      else [area_check p, rainfall_check p, fertilizer_check p, management_check p])"

text \<open>
  A page on which the management select can be read: the element exists, or the crop is not
  Maize and the script does not read it.
\<close>

definition management_readable :: "page \<Rightarrow> bool" where
  "management_readable p = (cropSelect p = ''maize'' \<longrightarrow> managementSelect p \<noteq> None)"

subsection \<open>The clamp and the rounding described on the values\<close>

text \<open>
  Rounding a non-negative rational to the nearest hundredth, a half going away from zero, as
  the specification words the rounding.
\<close>

definition nearest_hundredth :: "rat \<Rightarrow> rat" where
  "nearest_hundredth q = of_int \<lfloor>q * 100 + 1 / 2\<rfloor> / 100"

text \<open>
  The value that the script shows for a yield \<open>y\<close>: \<open>NaN\<close> for \<open>NaN\<close>; 0 for a yield below
  zero; otherwise, with \<open>h\<close> the Number product of \<open>y\<close> and 100, the product itself when it is
  infinite or a zero, and else the Number nearest to \<open>k / 100\<close>, where the integer \<open>k\<close> is \<open>h\<close>
  rounded to the nearest integer, a half going up.
\<close>

definition shown_value :: "jsnum \<Rightarrow> jsnum" where
  "shown_value y =
     (case y of
        NaN \<Rightarrow> NaN
      | NInf \<Rightarrow> Fin 0
      | Fin q \<Rightarrow>
          if q < 0 then Fin 0
          else (case fmul (Fin q) (Fin 100) of
                  Fin h \<Rightarrow> rnd (of_int \<lfloor>h + 1 / 2\<rfloor> / 100)
                | other \<Rightarrow> other)
      | other \<Rightarrow> other)"

text \<open>The label of the result, by crop and management selection.\<close>

definition shown_label :: "page \<Rightarrow> string" where
  "shown_label p =
     (if cropSelect p = ''tur'' then '' (Tur)''
      else if cropSelect p = ''gram'' then '' (Gram)''
      else if managementSelect p = Some ''poor'' then '' (Maize, Poor management)''
      else '' (Maize, Good management)'')"

subsection \<open>Example pages\<close>

definition blank_page :: page where
  "blank_page =
     \<lparr>cropSelect = [], managementSelect = Some [],
      tmArea = Some [], tmRainfall = Some [], tmFert = Some [],
      gRainSep = Some [], gRainOct = Some [], gRainNov = Some [], gArea = Some [], gFert = Some [],
      errorMsg_textContent = [], errorMsg_display = ''none'', resultInput = []\<rparr>"

definition tur_page :: page where
  "tur_page = blank_page\<lparr>cropSelect := ''tur'', tmArea := Some (utf16 ''1''),
     tmRainfall := Some (utf16 ''0''), tmFert := Some (utf16 ''0'')\<rparr>"

definition maize_page :: page where
  "maize_page = blank_page\<lparr>cropSelect := ''maize'', managementSelect := Some ''good'',
     tmArea := Some (utf16 ''1''), tmRainfall := Some (utf16 ''0''), tmFert := Some (utf16 ''0'')\<rparr>"

definition gram_page :: page where
  "gram_page = blank_page\<lparr>cropSelect := ''gram'', gRainSep := Some (utf16 ''0''),
     gRainOct := Some (utf16 ''0''), gRainNov := Some (utf16 ''0''), gArea := Some (utf16 ''1''),
     gFert := Some (utf16 ''0'')\<rparr>"

definition gram_blank_page :: page where
  "gram_blank_page = blank_page\<lparr>cropSelect := ''gram''\<rparr>"

definition maize_average_page :: page where
  "maize_average_page = maize_page\<lparr>managementSelect := Some ''average''\<rparr>"

definition maize_no_select_page :: page where
  "maize_no_select_page = maize_page\<lparr>managementSelect := None\<rparr>"

definition tur_absent_page :: page where
  "tur_absent_page = tur_page\<lparr>tmFert := None\<rparr>"

definition gram_infinity_page :: page where
  "gram_infinity_page = gram_page\<lparr>gRainSep := Some (utf16 ''Infinity''),
     gRainOct := Some (utf16 ''Infinity'')\<rparr>"

definition tur_example_page :: page where
  "tur_example_page = blank_page\<lparr>cropSelect := ''tur'', tmArea := Some (utf16 ''1''),
     tmRainfall := Some (utf16 ''500''), tmFert := Some (utf16 ''50'')\<rparr>"

definition tur_tie_page :: page where
  "tur_tie_page = blank_page\<lparr>cropSelect := ''tur'', tmArea := Some (utf16 ''1''),
     tmRainfall := Some (utf16 ''0''), tmFert := Some (utf16 ''1.4365156537659054'')\<rparr>"

definition tur_overflow_page :: page where
  "tur_overflow_page = blank_page\<lparr>cropSelect := ''tur'', tmArea := Some (utf16 ''8e307''),
     tmRainfall := Some (utf16 ''0''), tmFert := Some (utf16 ''0'')\<rparr>"

text \<open>A conversion of Numbers to text that writes nothing, for statements that need one.\<close>

definition no_text :: "jsnum \<Rightarrow> string" where
  "no_text x = []"

subsection \<open>The decimal literals of ECMAScript\<close>

text \<open>
  The standard defines \<^verbatim>\<open>parseFloat\<close> with the grammar \<^verbatim>\<open>StrDecimalLiteral\<close>: the result is the
  numeric value of the longest prefix of the trimmed text that satisfies the grammar, and
  \<open>NaN\<close> when no prefix does. The grammar is written here with recognisers: \<open>seq_of A B\<close>
  holds of a string of \<open>A\<close> followed by a string of \<open>B\<close>, \<open>opt_of A\<close> of the empty string and of
  the strings of \<open>A\<close>, \<open>one_of cs\<close> of the strings made of one of the characters \<open>cs\<close>.
\<close>

definition splits :: "'a list \<Rightarrow> ('a list \<times> 'a list) list" where
  "splits xs = map (\<lambda>n. (take n xs, drop n xs)) [0..<Suc (length xs)]"

definition seq_of :: "('a list \<Rightarrow> bool) \<Rightarrow> ('a list \<Rightarrow> bool) \<Rightarrow> 'a list \<Rightarrow> bool" where
  "seq_of A B xs = (\<exists>(a, b) \<in> set (splits xs). A a \<and> B b)"

definition opt_of :: "('a list \<Rightarrow> bool) \<Rightarrow> 'a list \<Rightarrow> bool" where
  "opt_of A xs = (xs = [] \<or> A xs)"

definition one_of :: "string \<Rightarrow> jsstring \<Rightarrow> bool" where
  "one_of cs xs = (\<exists>c \<in> set cs. xs = [of_char c])"

definition DecimalDigits :: "jsstring \<Rightarrow> bool" where
  "DecimalDigits xs = (xs \<noteq> [] \<and> list_all is_digit xs)"

definition SignedInteger :: "jsstring \<Rightarrow> bool" where
  "SignedInteger xs = (DecimalDigits xs \<or> seq_of (one_of ''+-'') DecimalDigits xs)"

definition ExponentPart :: "jsstring \<Rightarrow> bool" where
  "ExponentPart xs = seq_of (one_of ''eE'') SignedInteger xs"

definition StrUnsignedDecimalLiteral :: "jsstring \<Rightarrow> bool" where
  "StrUnsignedDecimalLiteral xs =
     (xs = utf16 ''Infinity'' \<or>
      seq_of DecimalDigits (seq_of (one_of ''.'') (seq_of (opt_of DecimalDigits) (opt_of ExponentPart))) xs \<or>
      seq_of (one_of ''.'') (seq_of DecimalDigits (opt_of ExponentPart)) xs \<or>
      seq_of DecimalDigits (opt_of ExponentPart) xs)"

definition StrDecimalLiteral :: "jsstring \<Rightarrow> bool" where
  "StrDecimalLiteral xs =
     (StrUnsignedDecimalLiteral xs \<or> seq_of (one_of ''+-'') StrUnsignedDecimalLiteral xs)"

text \<open>
  The numeric value of a literal. The mathematical value of an unsigned literal other than
  \<^verbatim>\<open>Infinity\<close> is \<open>(a + b * 10^(-n)) * 10^e\<close>, where \<open>a\<close> is the value of the digits before the
  point, \<open>b\<close> the value of the \<open>n\<close> digits after it and \<open>e\<close> the value of the signed integer
  after the exponent indicator (each 0 when the part is missing); the literal denotes the
  Number nearest to it. A leading \<^verbatim>\<open>-\<close> negates the Number, a zero included.
\<close>

definition is_exponent_indicator :: "nat \<Rightarrow> bool" where
  "is_exponent_indicator c = (c = of_char CHR ''e'' \<or> c = of_char CHR ''E'')"

definition mv_signed_integer :: "jsstring \<Rightarrow> int" where
  "mv_signed_integer xs =
     (if take 1 xs = utf16 ''-'' then - int (digits_val (drop 1 xs))
      else if take 1 xs = utf16 ''+'' then int (digits_val (drop 1 xs))
      else int (digits_val xs))"

definition mv_unsigned :: "jsstring \<Rightarrow> rat" where
  "mv_unsigned xs =
     (let m = takeWhile (\<lambda>c. \<not> is_exponent_indicator c) xs;
          e = drop (Suc (length m)) xs;
          a = takeWhile (\<lambda>c. c \<noteq> of_char CHR ''.'') m;
          b = drop (Suc (length a)) m
      in (of_nat (digits_val a) + of_nat (digits_val b) * 10 powi (- int (length b))) *
         10 powi mv_signed_integer e)"

definition unsigned_value :: "jsstring \<Rightarrow> jsnum" where
  "unsigned_value xs = (if xs = utf16 ''Infinity'' then PInf else rnd (mv_unsigned xs))"

definition StringNumericValue :: "jsstring \<Rightarrow> jsnum" where
  "StringNumericValue xs =
     (if take 1 xs = utf16 ''-'' then fneg (unsigned_value (drop 1 xs))
      else if take 1 xs = utf16 ''+'' then unsigned_value (drop 1 xs)
      else unsigned_value xs)"

text \<open>The longest prefix of a text that is a literal (\<open>prefixes\<close> lists them by length).\<close>

definition numeric_prefix :: "jsstring \<Rightarrow> jsstring option" where
  "numeric_prefix t =
     (let ls = filter StrDecimalLiteral (prefixes t) in if ls = [] then None else Some (last ls))"

text \<open>\<^verbatim>\<open>parseFloat\<close> as the standard words it.\<close>

definition spec_parseFloat :: "jsstring \<Rightarrow> jsnum" where
  "spec_parseFloat s =
     (case numeric_prefix (dropWhile is_ws s) of None \<Rightarrow> NaN | Some l \<Rightarrow> StringNumericValue l)"

section \<open>Properties of the rounding\<close>

lemma ilog2_bounds:
  assumes "0 < a"
  shows "2 powi (ilog2 a) \<le> a \<and> a < 2 powi (ilog2 a + 1)"
proof -
  obtain p d where pd: "quotient_of a = (p, d)" by (cases "quotient_of a")
  have d: "0 < d" using pd by (rule quotient_of_denom_pos)
  have a: "a = of_int p / of_int d" using pd by (rule quotient_of_div)
  have p: "0 < p" using assms d a by (simp add: zero_less_divide_iff)
  define fp where "fp = floorlog 2 (nat p)"
  define fd where "fd = floorlog 2 (nat d)"
  define k where "k = int fp - int fd"
  have bp: "2 ^ (fp - 1) \<le> nat p \<and> nat p < 2 ^ fp"
    unfolding fp_def using p by (intro floorlog_bounds) auto
  have bd: "2 ^ (fd - 1) \<le> nat d \<and> nat d < 2 ^ fd"
    unfolding fd_def using d by (intro floorlog_bounds) auto
  have fp1: "1 \<le> fp" using bp p by (cases fp) auto
  have fd1: "1 \<le> fd" using bd d by (cases fd) auto
  have P: "(2::rat) ^ (fp - 1) \<le> of_int p" "of_int p < (2::rat) ^ fp"
  proof -
    have "rat_of_nat (2 ^ (fp - 1)) \<le> rat_of_nat (nat p)" using bp by (simp only: of_nat_le_iff)
    then show "(2::rat) ^ (fp - 1) \<le> of_int p" using p by simp
    have "rat_of_nat (nat p) < rat_of_nat (2 ^ fp)" using bp by (simp only: of_nat_less_iff)
    then show "of_int p < (2::rat) ^ fp" using p by simp
  qed
  have D: "(2::rat) ^ (fd - 1) \<le> of_int d" "of_int d < (2::rat) ^ fd"
  proof -
    have "rat_of_nat (2 ^ (fd - 1)) \<le> rat_of_nat (nat d)" using bd by (simp only: of_nat_le_iff)
    then show "(2::rat) ^ (fd - 1) \<le> of_int d" using d by simp
    have "rat_of_nat (nat d) < rat_of_nat (2 ^ fd)" using bd by (simp only: of_nat_less_iff)
    then show "of_int d < (2::rat) ^ fd" using d by simp
  qed
  have up: "a < 2 powi (k + 1)"
  proof -
    have "k + 1 = int fp - int (fd - 1)" using fd1 by (simp add: k_def)
    then have "(2::rat) powi (k + 1) = 2 ^ fp / 2 ^ (fd - 1)"
      by (simp add: power_int_diff)
    moreover have "rat_of_int p / of_int d < 2 ^ fp / 2 ^ (fd - 1)"
      using P D p d by (intro frac_less) auto
    ultimately show ?thesis using a by simp
  qed
  have lo: "2 powi (k - 1) \<le> a"
  proof -
    have "k - 1 = int (fp - 1) - int fd" using fp1 by (simp add: k_def)
    then have "(2::rat) powi (k - 1) = 2 ^ (fp - 1) / 2 ^ fd"
      by (simp add: power_int_diff)
    moreover have "(2::rat) ^ (fp - 1) / 2 ^ fd \<le> of_int p / of_int d"
      using P D p d by (intro frac_le) auto
    ultimately show ?thesis using a by simp
  qed
  have il: "ilog2 a = (if 2 powi k \<le> a then k else k - 1)"
    by (simp add: ilog2_def pd fp_def fd_def k_def)
  show ?thesis
  proof (cases "2 powi k \<le> a")
    case True
    then show ?thesis using up il by simp
  next
    case False
    then show ?thesis using lo il by simp
  qed
qed

lemma powi2_mono: "m \<le> n \<Longrightarrow> (2::rat) powi m \<le> 2 powi n"
  by (rule power_int_increasing) auto

lemma powi2_less_imp: "(2::rat) powi m < 2 powi n \<Longrightarrow> m < n"
  using powi2_mono [of n m] by (cases "m < n") auto

lemma rhe_of_int: "round_half_even (of_int n) = n"
  by (simp add: round_half_even_def)

lemma rhe_lower: "of_int N \<le> x \<Longrightarrow> N \<le> round_half_even x"
  unfolding round_half_even_def Let_def by (auto simp: le_floor_iff) linarith+

lemma rhe_upper:
  assumes "x \<le> of_int N"
  shows "round_half_even x \<le> N"
proof (cases "x = of_int N")
  case True
  then show ?thesis by (simp add: rhe_of_int)
next
  case False
  then have "x < of_int N" using assms by simp
  then have "\<lfloor>x\<rfloor> < N" by (simp add: floor_less_iff)
  then have "\<lfloor>x\<rfloor> + 1 \<le> N" by simp
  moreover have "round_half_even x \<le> \<lfloor>x\<rfloor> + 1"
    unfolding round_half_even_def Let_def by simp
  ultimately show ?thesis by linarith
qed

text \<open>A value with at most 53 significant bits above the subnormal grid is left as it is.\<close>

lemma round_mag_exact:
  assumes m: "0 < m" "m < 2 ^ 53" and j: "- 1074 \<le> j"
  shows "round_mag (of_int m * 2 powi j) = of_int m * 2 powi j"
proof -
  define a :: rat where "a = of_int m * 2 powi j"
  define ex where "ex = max (ilog2 a) (- 1022) - 52"
  have pos: "0 < a" using m by (simp add: a_def)
  from ilog2_bounds [OF pos] have "2 powi (ilog2 a) \<le> a" by simp
  also have "a < 2 ^ 53 * 2 powi j"
  proof -
    have "rat_of_int m < of_int (2 ^ 53)" using m(2) by (simp only: of_int_less_iff)
    then show ?thesis by (simp add: a_def)
  qed
  also have "\<dots> = 2 powi (53 + j)" by (simp add: power_int_add)
  finally have "ilog2 a < 53 + j" by (rule powi2_less_imp)
  then have le: "ex \<le> j" using j by (simp add: ex_def)
  then obtain t where t: "j = ex + int t" by (metis zle_iff_zadd)
  have "a / 2 powi ex = of_int m * (2 powi j / 2 powi ex)" by (simp add: a_def)
  also have "2 powi j / 2 powi ex = (2::rat) ^ t" using t by (simp add: power_int_add)
  finally have q: "a / 2 powi ex = of_int (m * 2 ^ t)" by simp
  have "round_mag a = of_int (round_half_even (a / 2 powi ex)) * 2 powi ex"
    by (simp add: round_mag_def ex_def Let_def)
  also have "\<dots> = (a / 2 powi ex) * 2 powi ex"
    unfolding q rhe_of_int ..
  also have "\<dots> = a" by simp
  finally show ?thesis by (simp add: a_def)
qed

lemma round_mag_form:
  assumes "0 < a"
  shows "\<exists>n ex. round_mag a = of_int n * 2 powi ex \<and> 0 \<le> n \<and> n \<le> 2 ^ 53 \<and> - 1074 \<le> ex"
proof -
  define ex where "ex = max (ilog2 a) (- 1022) - 52"
  define n where "n = round_half_even (a / 2 powi ex)"
  have rm: "round_mag a = of_int n * 2 powi ex" by (simp add: round_mag_def ex_def n_def Let_def)
  have "0 \<le> a / 2 powi ex" using assms by simp
  then have n0: "0 \<le> n" unfolding n_def using rhe_lower [of 0] by simp
  have "a < 2 powi (ilog2 a + 1)" using ilog2_bounds [OF assms] by simp
  also have "\<dots> \<le> 2 powi (ex + 53)" by (rule powi2_mono) (simp add: ex_def)
  also have "\<dots> = 2 powi ex * 2 ^ 53" by (simp add: power_int_add)
  finally have "a / 2 powi ex < 2 ^ 53" by (simp add: divide_less_eq mult.commute)
  then have "a / 2 powi ex \<le> of_int (2 ^ 53)" by simp
  then have "n \<le> 2 ^ 53" unfolding n_def by (rule rhe_upper)
  moreover have "- 1074 \<le> ex" by (simp add: ex_def)
  ultimately show ?thesis using rm n0 by blast
qed

lemma round_mag_0: "round_mag 0 = 0"
  by (simp add: round_mag_def round_half_even_def Let_def)

lemma round_mag_idem:
  assumes "0 < a"
  shows "round_mag (round_mag a) = round_mag a"
proof -
  from round_mag_form [OF assms] obtain n ex where
    rm: "round_mag a = of_int n * 2 powi ex" and n: "0 \<le> n" "n \<le> 2 ^ 53" and ex: "- 1074 \<le> ex"
    by blast
  consider "n = 0" | "0 < n" "n < 2 ^ 53" | "n = 2 ^ 53" using n by linarith
  then show ?thesis
  proof cases
    case 1
    then have "round_mag a = 0" using rm by simp
    then show ?thesis using round_mag_0 by simp
  next
    case 2
    then show ?thesis unfolding rm using ex by (intro round_mag_exact) auto
  next
    case 3
    have "round_mag a = of_int (2 ^ 52) * 2 powi (ex + 1)"
      unfolding rm 3 by (simp add: power_int_add)
    moreover have "round_mag (of_int (2 ^ 52) * 2 powi (ex + 1)) = of_int (2 ^ 52) * 2 powi (ex + 1)"
      using ex by (intro round_mag_exact) auto
    ultimately show ?thesis by simp
  qed
qed

lemma round_mag_nonneg: "0 \<le> a \<Longrightarrow> 0 \<le> round_mag a"
  unfolding round_mag_def Let_def using rhe_lower [of 0] by simp

lemma rnd_not_NaN: "rnd q \<noteq> NaN"
  by (simp add: rnd_def Let_def)

lemma rnd_0:
  "rnd 0 =
     Fin 0"
  by (simp add: rnd_def round_mag_0)

lemma powi2_1024: "(2::rat) ^ 53 * 2 powi 971 = 2 powi 1024"
  by (simp add: power_int_add)

lemma rnd_exact:
  assumes m: "\<bar>m\<bar> < 2 ^ 53" and j: "- 1074 \<le> j" "j \<le> 971"
  shows "rnd (of_int m * 2 powi j) = Fin (of_int m * 2 powi j)"
proof (cases "m = 0")
  case True
  then show ?thesis by (simp add: rnd_0)
next
  case False
  define q :: rat where "q = of_int m * 2 powi j"
  have abs: "\<bar>q\<bar> = of_int \<bar>m\<bar> * 2 powi j" by (simp add: q_def abs_mult)
  have rm: "round_mag \<bar>q\<bar> = \<bar>q\<bar>"
    unfolding abs using False m j by (intro round_mag_exact) auto
  have "rat_of_int \<bar>m\<bar> < of_int (2 ^ 53)" using m by (simp only: of_int_less_iff)
  then have "\<bar>q\<bar> < 2 ^ 53 * 2 powi j" unfolding abs by simp
  also have "\<dots> \<le> 2 ^ 53 * 2 powi 971" using j powi2_mono [of j 971] by simp
  also have "\<dots> = 2 powi 1024" by (rule powi2_1024)
  finally have lt: "\<not> 2 powi 1024 \<le> \<bar>q\<bar>" by simp
  have nz: "\<bar>q\<bar> \<noteq> 0" using False by (simp add: q_def)
  have "rnd q = Fin q"
    using lt nz unfolding rnd_def rm Let_def by auto
  then show ?thesis by (simp add: q_def)
qed

lemma rnd_int: "\<bar>n\<bar> < 2 ^ 53 \<Longrightarrow> rnd (of_int n) = Fin (of_int n)"
  using rnd_exact [of n 0] by simp

lemma lit_0: "lit 0 = Fin 0"
  by (simp add: lit_def rnd_0)

lemma lit_1: "lit 1 = Fin 1"
  using rnd_int [of 1] by (simp add: lit_def)

lemma lit_100: "lit 100 = Fin 100"
  using rnd_int [of 100] by (simp add: lit_def)

lemma lit_075: "lit 0.75 = Fin (3 / 4)"
  using rnd_exact [of 3 "- 2"] by (simp add: lit_def)

lemma rnd_idem:
  assumes "rnd q = Fin v"
  shows "rnd v = Fin v"
proof (cases "v = 0")
  case True
  then show ?thesis by (simp add: rnd_0)
next
  case False
  define w where "w = round_mag \<bar>q\<bar>"
  have w: "\<not> 2 powi 1024 \<le> w" "w \<noteq> 0" "v = (if q < 0 then - w else w)"
    using assms False unfolding rnd_def w_def Let_def by (auto split: if_splits)
  have q: "q \<noteq> 0" using w(2) round_mag_0 by (auto simp: w_def)
  have w0: "0 < w" using round_mag_nonneg [of "\<bar>q\<bar>"] w(2) by (simp add: w_def)
  have av: "\<bar>v\<bar> = w" using w0 w(3) by simp
  have "round_mag w = w" unfolding w_def using q by (intro round_mag_idem) simp
  then have rm: "round_mag \<bar>v\<bar> = w" using av by simp
  have sg: "v < 0 \<longleftrightarrow> q < 0" using w0 w(3) by auto
  show ?thesis
    unfolding rnd_def rm Let_def using w sg by auto
qed

lemma is_double_rnd: "is_double (rnd q)"
  by (auto simp: is_double_def rnd_idem split: jsnum.splits)

lemma is_double_fadd: "is_double (fadd x y)"
  by (auto simp: fadd_def Let_def is_double_rnd is_inf_def) (auto simp: is_double_def rnd_0)

lemma is_double_fmul: "is_double (fmul x y)"
  by (auto simp: fmul_def is_double_rnd signed_inf_def signed_zero_def) (auto simp: is_double_def rnd_0)

lemma fmul_commute: "fmul x y = fmul y x"
proof -
  have "(sign_neg x \<noteq> sign_neg y) = (sign_neg y \<noteq> sign_neg x)" by auto
  then show ?thesis unfolding fmul_def by (simp add: mult.commute disj_commute)
qed

lemma fmul_one: "is_double x \<Longrightarrow> fmul x (lit 1) = x"
  by (cases x) (auto simp: fmul_def lit_1 is_inf_def is_zero_def is_double_def signed_zero_def signed_inf_def)

lemma powi2_split: "(2::rat) powi (int k + j) = 2 ^ k * 2 powi j"
  by (simp add: power_int_add)

lemma rnd_normal:
  assumes lo: "2 powi e \<le> q" and hi: "q < 2 powi (e + 1)" and e: "- 1022 \<le> e" "e \<le> 1022"
  shows "rnd q = Fin (of_int (round_half_even (q / 2 powi (e - 52))) * 2 powi (e - 52))"
proof -
  have pos: "0 < q" using lo by (meson less_le_trans zero_less_numeral zero_less_power_int)
  have il: "ilog2 q = e"
  proof -
    from ilog2_bounds [OF pos] have b: "2 powi (ilog2 q) \<le> q" "q < 2 powi (ilog2 q + 1)" by auto
    have "(2::rat) powi e < 2 powi (ilog2 q + 1)" using lo b(2) by simp
    then have "e < ilog2 q + 1" by (rule powi2_less_imp)
    moreover have "(2::rat) powi (ilog2 q) < 2 powi (e + 1)" using hi b(1) by simp
    then have "ilog2 q < e + 1" by (rule powi2_less_imp)
    ultimately show ?thesis by simp
  qed
  define n where "n = round_half_even (q / 2 powi (e - 52))"
  have rm: "round_mag \<bar>q\<bar> = of_int n * 2 powi (e - 52)"
    using pos e by (simp add: round_mag_def il n_def Let_def)
  have "(2::rat) ^ 52 = 2 powi e / 2 powi (e - 52)" by (simp add: power_int_diff)
  also have "\<dots> \<le> q / 2 powi (e - 52)" using lo by (simp add: divide_right_mono)
  finally have "of_int (2 ^ 52) \<le> q / 2 powi (e - 52)" by simp
  then have n_lo: "2 ^ 52 \<le> n" unfolding n_def by (rule rhe_lower)
  have "q / 2 powi (e - 52) \<le> 2 powi (e + 1) / 2 powi (e - 52)"
    using hi by (simp add: divide_right_mono)
  also have "\<dots> = 2 powi ((e + 1) - (e - 52))" by (rule power_int_diff [symmetric]) simp
  also have "\<dots> = 2 ^ 53" by simp
  finally have "q / 2 powi (e - 52) \<le> of_int (2 ^ 53)" by simp
  then have n_hi: "n \<le> 2 ^ 53" unfolding n_def by (rule rhe_upper)
  have e1: "int 53 + (e - 52) = e + 1" by simp
  have "rat_of_int n \<le> of_int (2 ^ 53)" using n_hi by (simp only: of_int_le_iff)
  then have "of_int n * 2 powi (e - 52) \<le> 2 ^ 53 * (2::rat) powi (e - 52)" by simp
  also have "\<dots> = 2 powi (e + 1)" using powi2_split [of 53 "e - 52"] by (simp only: e1)
  also have "\<dots> < 2 powi 1024" using e by (intro power_int_strict_increasing) auto
  finally have lt: "\<not> 2 powi 1024 \<le> rat_of_int n * 2 powi (e - 52)" by simp
  have "0 < n" using n_lo by (smt (verit) zero_less_power)
  then have nz: "rat_of_int n * 2 powi (e - 52) \<noteq> 0" by simp
  show ?thesis
    unfolding rnd_def rm Let_def n_def [symmetric] using lt nz pos by auto
qed

lemma rhe_numeral_frac:
  "round_half_even (numeral a / numeral b) =
     (let d = (numeral a :: int) div numeral b; r = (numeral a :: int) mod numeral b
      in if 2 * r < numeral b then d else if numeral b < 2 * r then d + 1
         else if even d then d else d + 1)"
proof -
  define A :: int where "A = numeral a"
  define B :: int where "B = numeral b"
  have B: "0 < B" by (simp add: B_def)
  have fl: "\<lfloor>rat_of_int A / of_int B\<rfloor> = A div B" by (rule floor_divide_of_int_eq)
  have "rat_of_int A = of_int (A div B * B + A mod B)" by simp
  also have "\<dots> = of_int (A div B) * of_int B + of_int (A mod B)" by (simp only: of_int_add of_int_mult)
  finally have r: "rat_of_int A / of_int B - of_int (A div B) = of_int (A mod B) / of_int B"
    using B by (simp add: field_simps)
  have c1: "(rat_of_int (A mod B) / of_int B < 1 / 2) = (2 * (A mod B) < B)"
  proof -
    have "(rat_of_int (A mod B) / of_int B < 1 / 2) = (rat_of_int (2 * (A mod B)) < of_int B)"
      using B by (simp add: field_simps)
    then show ?thesis by (simp only: of_int_less_iff)
  qed
  have c2: "(1 / 2 < rat_of_int (A mod B) / of_int B) = (B < 2 * (A mod B))"
  proof -
    have "(1 / 2 < rat_of_int (A mod B) / of_int B) = (rat_of_int B < of_int (2 * (A mod B)))"
      using B by (simp add: field_simps)
    then show ?thesis by (simp only: of_int_less_iff)
  qed
  have "round_half_even (rat_of_int A / of_int B) =
     (let d = A div B; r = A mod B
      in if 2 * r < B then d else if B < 2 * r then d + 1 else if even d then d else d + 1)"
    unfolding round_half_even_def Let_def fl r c1 c2 ..
  then show ?thesis unfolding A_def B_def of_int_numeral .
qed

lemma rhe_numeral: "round_half_even (numeral a) = numeral a"
  using rhe_of_int [of "numeral a"] by simp

lemma rhe_half: "1 / 2 < x \<Longrightarrow> 1 \<le> round_half_even x"
proof -
  assume h: "1 / 2 < x"
  then have f0: "0 \<le> \<lfloor>x\<rfloor>" by (simp add: le_floor_iff)
  show ?thesis
  proof (cases "\<lfloor>x\<rfloor> = 0")
    case True
    then show ?thesis using h by (simp add: round_half_even_def Let_def)
  next
    case False
    then have "1 \<le> \<lfloor>x\<rfloor>" using f0 by linarith
    moreover have "\<lfloor>x\<rfloor> \<le> round_half_even x" by (simp add: round_half_even_def Let_def)
    ultimately show ?thesis by linarith
  qed
qed

lemma round_mag_pos:
  assumes "2 powi (- 1075) < a"
  shows "0 < round_mag a"
proof -
  have pos: "0 < a" using assms by (meson less_trans zero_less_numeral zero_less_power_int)
  define ex where "ex = max (ilog2 a) (- 1022) - 52"
  have "1 \<le> round_half_even (a / 2 powi ex)"
  proof (cases "- 1022 \<le> ilog2 a")
    case True
    then have ex: "ex = ilog2 a - 52" by (simp add: ex_def)
    have "(2::rat) ^ 52 = 2 powi (ilog2 a) / 2 powi ex" by (simp add: ex power_int_diff)
    also have "\<dots> \<le> a / 2 powi ex"
      using ilog2_bounds [OF pos] by (simp add: divide_right_mono)
    finally have "of_int (2 ^ 52) \<le> a / 2 powi ex" by simp
    then have "2 ^ 52 \<le> round_half_even (a / 2 powi ex)" by (rule rhe_lower)
    then show ?thesis by (smt (verit) one_le_power)
  next
    case False
    then have ex: "ex = - 1074" by (simp add: ex_def)
    have "(1::rat) / 2 = 2 powi (- 1075) / 2 powi (- 1074)"
      by (simp add: power_int_minus field_simps)
    also have "\<dots> < a / 2 powi (- 1074)" using assms by (simp add: divide_strict_right_mono)
    finally show ?thesis unfolding ex by (rule rhe_half)
  qed
  then have "0 < rat_of_int (round_half_even (a / 2 powi ex)) * 2 powi ex" by simp
  then show ?thesis by (simp add: round_mag_def ex_def Let_def)
qed

lemma double_min:
  assumes "rnd q = Fin q" and "q \<noteq> 0"
  shows "2 powi (- 1074) \<le> \<bar>q\<bar>"
proof -
  have pos: "0 < \<bar>q\<bar>" using assms(2) by simp
  have rm: "round_mag \<bar>q\<bar> = \<bar>q\<bar>"
    using assms unfolding rnd_def Let_def by (auto split: if_splits)
  from round_mag_form [OF pos] obtain n ex where
    f: "round_mag \<bar>q\<bar> = of_int n * 2 powi ex" and n: "0 \<le> n" and ex: "- 1074 \<le> ex"
    by blast
  have "n \<noteq> 0" using f rm pos by auto
  then have "1 \<le> n" using n by linarith
  then have "(1::rat) \<le> of_int n" by simp
  moreover have "(0::rat) \<le> 2 powi ex" by simp
  ultimately have "1 * (2::rat) powi ex \<le> of_int n * 2 powi ex"
    by (rule mult_right_mono)
  then have b: "(2::rat) powi ex \<le> of_int n * 2 powi ex" by simp
  have a: "(2::rat) powi (- 1074) \<le> 2 powi ex" using ex by (rule powi2_mono)
  have "\<bar>q\<bar> = of_int n * 2 powi ex" using f rm by (simp only:)
  then show ?thesis using order_trans [OF a b] by (simp only:)
qed

lemma rnd_neg_nonzero:
  assumes "q < 0" and "2 powi (- 1075) < \<bar>q\<bar>"
  shows "flt (rnd q) (Fin 0)"
proof -
  have "0 < round_mag \<bar>q\<bar>" using assms(2) by (rule round_mag_pos)
  then show ?thesis using assms(1) by (simp add: rnd_def Let_def)
qed

lemma rnd_nonneg:
  assumes "0 \<le> q"
  shows "\<not> flt (rnd q) (Fin 0)"
proof -
  have "0 \<le> round_mag \<bar>q\<bar>" by (rule round_mag_nonneg) simp
  then show ?thesis using assms by (simp add: rnd_def Let_def)
qed

section \<open>Evaluating the parser on example fields\<close>

lemma parseNumber_None: "parseNumber None = None"
  by (simp add: parseNumber_def parseFloat_def fraction_part_def isNaN_def utf16_def)

lemma parseNumber_empty: "parseNumber (Some []) = None"
  by (simp add: parseNumber_def parseFloat_def fraction_part_def isNaN_def utf16_def)

lemma parseNumber_0: "parseNumber (Some (utf16 ''0'')) = Some (Fin 0)"
  by (simp add: parseNumber_def parseFloat_def fraction_part_def isNaN_def is_ws_def is_digit_def
      digits_val_def digit_val_def exponent_part_def signed_zero_def utf16_def)

lemma parseNumber_1: "parseNumber (Some (utf16 ''1'')) = Some (Fin 1)"
  using rnd_int [of 1]
  by (simp add: parseNumber_def parseFloat_def fraction_part_def isNaN_def is_ws_def is_digit_def
      digits_val_def digit_val_def exponent_part_def signed_zero_def utf16_def)

lemma parseNumber_Infinity: "parseNumber (Some (utf16 ''Infinity'')) = Some PInf"
  by (simp add: parseNumber_def parseFloat_def isNaN_def is_ws_def signed_inf_def utf16_def)

lemma parseNumber_12abc: "parseNumber (Some (utf16 ''12abc'')) = Some (Fin 12)"
  using rnd_int [of 12]
  by (simp add: parseNumber_def parseFloat_def fraction_part_def isNaN_def is_ws_def is_digit_def
      digits_val_def digit_val_def exponent_part_def signed_zero_def utf16_def)

lemma parseNumber_abc: "parseNumber (Some (utf16 ''abc'')) = None"
  by (simp add: parseNumber_def parseFloat_def fraction_part_def isNaN_def is_ws_def is_digit_def
      utf16_def)

section \<open>Reporting of errors\<close>

lemma case_tur_clear: "case_tur (clearErrorAndResult p) = case_tur p"
  by (simp add: case_tur_def clearErrorAndResult_def)

lemma case_maize_clear: "case_maize (clearErrorAndResult p) = case_maize p"
  by (simp add: case_maize_def clearErrorAndResult_def)

lemma case_gram_clear: "case_gram (clearErrorAndResult p) = case_gram p"
  by (simp add: case_gram_def clearErrorAndResult_def)

lemma switch_clear: "predict_switch (clearErrorAndResult p) = predict_switch p"
proof -
  have "cropSelect (clearErrorAndResult p) = cropSelect p" by (simp add: clearErrorAndResult_def)
  then show ?thesis
    by (simp add: predict_switch_def Let_def case_tur_clear case_maize_clear case_gram_clear)
qed

lemma showError_clear: "showError msg (clearErrorAndResult p) = showError msg p"
  by (simp add: showError_def clearErrorAndResult_def)

lemma case_tur_msg: "case_tur p = Inl (Rejected msg) \<Longrightarrow> msg \<noteq> []"
  by (auto simp: case_tur_def Let_def split: option.splits if_splits)

lemma case_maize_msg: "case_maize p = Inl (Rejected msg) \<Longrightarrow> msg \<noteq> []"
  by (auto simp: case_maize_def Let_def split: option.splits if_splits)

lemma case_gram_msg: "case_gram p = Inl (Rejected msg) \<Longrightarrow> msg \<noteq> []"
  by (auto simp: case_gram_def Let_def split: option.splits if_splits)

lemma switch_msg: "predict_switch p = Inl (Rejected msg) \<Longrightarrow> msg \<noteq> []"
  by (auto simp: predict_switch_def Let_def case_tur_msg case_maize_msg case_gram_msg split: if_splits)

lemma result_error_Some: "result_error r = Some msg \<longleftrightarrow> r = Inl (Rejected msg)"
  by (auto simp: result_error_def split: sum.splits abrupt.splits)

lemma predict_failure:
  assumes "result_error (predict_switch p) = Some msg"
  shows "predict numToString p = Inr (showError msg p)"
proof -
  from assms have "predict_switch p = Inl (Rejected msg)" by (simp add: result_error_Some)
  then show ?thesis by (simp add: predict_def switch_clear showError_clear)
qed

lemma predict_success:
  assumes "predict_switch p = Inr (y, l)"
  shows "predict numToString p =
     Inr ((clearErrorAndResult p)\<lparr>resultInput :=
            numToString (round2 (clamp y)) @ '' quintals (approx.)'' @ l\<rparr>)"
  using assms by (simp add: predict_def switch_clear)

text \<open>
  Claim C8. Whenever the validation fails with a message, \<open>predict\<close> returns and leaves the
  page with exactly that message in the error element, the error element displayed, and the
  result field empty; the message is not empty. An empty crop identifier and a crop
  identifier other than \<^verbatim>\<open>tur\<close>, \<^verbatim>\<open>maize\<close>, \<^verbatim>\<open>gram\<close> are validation failures with their own
  messages.
\<close>

theorem validation_failure_reports_error:
  "(result_error (predict_switch p) = Some msg \<longrightarrow>
      (\<exists>q. predict numToString p = Inr q \<and> q = showError msg p \<and>
         errorMsg_textContent q = msg \<and> errorMsg_display q = ''block'' \<and> resultInput q = []) \<and>
      msg \<noteq> []) \<and>
   (cropSelect p = [] \<longrightarrow> result_error (predict_switch p) = Some ''Please select a crop.'') \<and>
   (cropSelect p \<noteq> [] \<and> cropSelect p \<notin> set [''tur'', ''maize'', ''gram''] \<longrightarrow>
      result_error (predict_switch p) = Some ''No formula defined for this crop.'')"
proof (intro conjI impI)
  assume e: "result_error (predict_switch p) = Some msg"
  then have "predict numToString p = Inr (showError msg p)" by (rule predict_failure)
  then show "\<exists>q. predict numToString p = Inr q \<and> q = showError msg p \<and>
      errorMsg_textContent q = msg \<and> errorMsg_display q = ''block'' \<and> resultInput q = []"
    by (simp add: showError_def)
  from e have "predict_switch p = Inl (Rejected msg)" by (simp add: result_error_Some)
  then show "msg \<noteq> []" by (rule switch_msg)
next
  assume "cropSelect p = []"
  then show "result_error (predict_switch p) = Some ''Please select a crop.''"
    by (simp add: predict_switch_def result_error_def)
next
  assume "cropSelect p \<noteq> [] \<and> cropSelect p \<notin> set [''tur'', ''maize'', ''gram'']"
  then show "result_error (predict_switch p) = Some ''No formula defined for this crop.''"
    by (simp add: predict_switch_def result_error_def)
qed

theorem validation_failure_reports_error_witness:
  "result_error (predict_switch blank_page) = Some ''Please select a crop.'' \<and>
   cropSelect blank_page = [] \<and>
   (\<forall>numToString.
      predict numToString blank_page = Inr (showError ''Please select a crop.'' blank_page)) \<and>
   errorMsg_textContent (showError ''Please select a crop.'' blank_page) = ''Please select a crop.'' \<and>
   errorMsg_display (showError ''Please select a crop.'' blank_page) = ''block'' \<and>
   resultInput (showError ''Please select a crop.'' blank_page) = [] \<and>
   cropSelect (blank_page\<lparr>cropSelect := ''rice''\<rparr>) \<notin> set [''tur'', ''maize'', ''gram''] \<and>
   result_error (predict_switch (blank_page\<lparr>cropSelect := ''rice''\<rparr>)) =
     Some ''No formula defined for this crop.''"
proof -
  have c: "cropSelect blank_page = []" by (simp add: blank_page_def)
  have e: "result_error (predict_switch blank_page) = Some ''Please select a crop.''"
    using validation_failure_reports_error [of blank_page] c by simp
  have r: "cropSelect (blank_page\<lparr>cropSelect := ''rice''\<rparr>) \<noteq> [] \<and>
      cropSelect (blank_page\<lparr>cropSelect := ''rice''\<rparr>) \<notin> set [''tur'', ''maize'', ''gram'']"
    by simp
  show ?thesis
    using validation_failure_reports_error [of blank_page "''Please select a crop.''"] e c
      validation_failure_reports_error [of "blank_page\<lparr>cropSelect := ''rice''\<rparr>"] r
    by (simp add: showError_def)
qed

section \<open>The regression and the result field\<close>

lemma rnd_minus: "q \<noteq> 0 \<Longrightarrow> rnd (- q) = fneg (rnd q)"
  by (cases "q < 0") (auto simp: rnd_def Let_def)

lemma lit_minus: "q \<noteq> 0 \<Longrightarrow> lit (- q) = fneg (lit q)"
  by (simp add: lit_def rnd_minus)

lemma spec_tur_eq:
  "spec_tur a r f =
     fadd (fadd (fadd (fneg (lit 3.32843850766629)) (fmul (lit 0.00459239788361382) r))
                (fmul (lit 4.33370044211268) a))
          (fmul (lit 0.0763918341341603) f)"
  by (simp add: spec_tur_def linreg_def lit_minus)

lemma spec_maize_base_eq:
  "spec_maize_base a r f =
     fadd (fadd (fadd (fneg (lit 23.81399768)) (fmul (lit 0.039441256) r))
                (fmul (lit 13.03528484) a))
          (fmul (lit 0.031329566) f)"
  by (simp add: spec_maize_base_def linreg_def lit_minus)

lemma spec_gram_eq:
  "spec_gram a r9 r10 r11 f =
     fadd (fadd (fadd (fadd (fadd (lit 57.91029391) (fmul (lit 9.450850118) a))
                            (fmul (fneg (lit 0.577080551)) r9))
                      (fmul (lit 0.069920447) r10))
                (fmul (lit 0.278021178) r11))
          (fmul (fneg (lit 0.006839212)) f)"
  by (simp add: spec_gram_def linreg_def lit_minus)

lemma case_tur_Inr:
  "case_tur p = Inr (y, l) \<longleftrightarrow>
     (\<exists>a r f. parseNumber (tmArea p) = Some a \<and> \<not> fle a (lit 0) \<and>
        parseNumber (tmRainfall p) = Some r \<and> \<not> flt r (lit 0) \<and>
        parseNumber (tmFert p) = Some f \<and> \<not> flt f (lit 0) \<and>
        y = spec_tur a r f \<and> l = '' (Tur)'')"
  unfolding case_tur_def Let_def spec_tur_eq
  by (auto split: option.splits)

lemma case_maize_Inr:
  "case_maize p = Inr (y, l) \<longleftrightarrow>
     (\<exists>a r f m. parseNumber (tmArea p) = Some a \<and> \<not> fle a (lit 0) \<and>
        parseNumber (tmRainfall p) = Some r \<and> \<not> flt r (lit 0) \<and>
        parseNumber (tmFert p) = Some f \<and> \<not> flt f (lit 0) \<and>
        managementSelect p = Some m \<and> m \<noteq> [] \<and>
        y = spec_maize a r f m \<and>
        l = (if m = ''poor'' then '' (Maize, Poor management)''
             else '' (Maize, Good management)''))"
  unfolding case_maize_def Let_def spec_maize_def spec_maize_base_eq managementFactor_def
  by (auto split: option.splits)

lemma case_gram_Inr:
  "case_gram p = Inr (y, l) \<longleftrightarrow>
     (\<exists>a r9 r10 r11 f.
        parseNumber (gRainSep p) = Some r9 \<and> \<not> flt r9 (lit 0) \<and>
        parseNumber (gRainOct p) = Some r10 \<and> \<not> flt r10 (lit 0) \<and>
        parseNumber (gRainNov p) = Some r11 \<and> \<not> flt r11 (lit 0) \<and>
        parseNumber (gArea p) = Some a \<and> \<not> fle a (lit 0) \<and>
        parseNumber (gFert p) = Some f \<and> \<not> flt f (lit 0) \<and>
        y = spec_gram a r9 r10 r11 f \<and> l = '' (Gram)'')"
  unfolding case_gram_def Let_def spec_gram_eq
  by (auto split: option.splits)

lemma switch_Inr:
  "predict_switch p = Inr yl \<longleftrightarrow>
     (cropSelect p = ''tur'' \<and> case_tur p = Inr yl \<or>
      cropSelect p = ''maize'' \<and> case_maize p = Inr yl \<or>
      cropSelect p = ''gram'' \<and> case_gram p = Inr yl)"
  by (auto simp: predict_switch_def Let_def)

lemma switch_regression: "predict_switch p = Inr (y, l) \<Longrightarrow> regression p = Some y"
  by (auto simp: switch_Inr case_tur_Inr case_maize_Inr case_gram_Inr regression_def)

lemma switch_label: "predict_switch p = Inr (y, l) \<Longrightarrow> l = shown_label p"
  by (auto simp: switch_Inr case_tur_Inr case_maize_Inr case_gram_Inr shown_label_def)

text \<open>
  Claim C1. Whenever the validation passes, the yield before the clamp is the regression of
  the selected crop as the specification words it: the intercept literal, then each
  coefficient literal times its parsed input added from left to right (for Maize the sum is
  then multiplied by the management factor), all in Number arithmetic.
\<close>

theorem predicted_yield_is_regression:
  "predict_switch p = Inr (y, l) \<Longrightarrow> regression p = Some y"
  by (auto simp: switch_Inr case_tur_Inr case_maize_Inr case_gram_Inr regression_def)

lemma tur_page_switch:
  "predict_switch tur_page = Inr (spec_tur (Fin 1) (Fin 0) (Fin 0), '' (Tur)'')"
  by (simp add: switch_Inr case_tur_Inr tur_page_def blank_page_def parseNumber_0 parseNumber_1 lit_0)

lemma maize_page_switch:
  "predict_switch maize_page =
     Inr (spec_maize (Fin 1) (Fin 0) (Fin 0) ''good'', '' (Maize, Good management)'')"
  by (simp add: switch_Inr case_maize_Inr maize_page_def blank_page_def parseNumber_0
      parseNumber_1 lit_0)

lemma gram_page_switch:
  "predict_switch gram_page =
     Inr (spec_gram (Fin 1) (Fin 0) (Fin 0) (Fin 0) (Fin 0), '' (Gram)'')"
  by (simp add: switch_Inr case_gram_Inr gram_page_def blank_page_def parseNumber_0
      parseNumber_1 lit_0)

theorem predicted_yield_is_regression_witness:
  "predict_switch tur_page = Inr (spec_tur (Fin 1) (Fin 0) (Fin 0), '' (Tur)'') \<and>
   regression tur_page = Some (spec_tur (Fin 1) (Fin 0) (Fin 0)) \<and>
   predict_switch maize_page =
     Inr (spec_maize (Fin 1) (Fin 0) (Fin 0) ''good'', '' (Maize, Good management)'') \<and>
   regression maize_page = Some (spec_maize (Fin 1) (Fin 0) (Fin 0) ''good'') \<and>
   predict_switch gram_page =
     Inr (spec_gram (Fin 1) (Fin 0) (Fin 0) (Fin 0) (Fin 0), '' (Gram)'') \<and>
   regression gram_page = Some (spec_gram (Fin 1) (Fin 0) (Fin 0) (Fin 0) (Fin 0))"
  using predicted_yield_is_regression [OF tur_page_switch]
    predicted_yield_is_regression [OF maize_page_switch]
    predicted_yield_is_regression [OF gram_page_switch]
    tur_page_switch maize_page_switch gram_page_switch
  by simp

subsection \<open>The value shown\<close>

lemma rnd_nonneg_val:
  assumes "0 \<le> q" and "rnd q = Fin h"
  shows "0 \<le> h"
proof -
  have "0 \<le> round_mag \<bar>q\<bar>" by (rule round_mag_nonneg) simp
  then show ?thesis using assms by (auto simp: rnd_def Let_def split: if_splits)
qed

lemma rnd_nonneg_cases:
  assumes "0 \<le> q"
  shows "rnd q = PInf \<or> (\<exists>h. 0 \<le> h \<and> rnd q = Fin h)"
proof -
  have "0 \<le> round_mag \<bar>q\<bar>" by (rule round_mag_nonneg) simp
  then show ?thesis using assms by (auto simp: rnd_def Let_def)
qed

lemma round2_nonneg:
  assumes "0 \<le> h"
  shows "fdiv (math_round (Fin h)) (Fin 100) = rnd (of_int \<lfloor>h + 1 / 2\<rfloor> / 100)"
proof (cases "\<lfloor>h + 1 / 2\<rfloor> = 0")
  case True
  then show ?thesis
    using assms by (simp add: signed_zero_def fdiv_def is_inf_def is_zero_def rnd_0)
next
  case False
  then show ?thesis
    by (simp add: fdiv_def is_inf_def is_zero_def)
qed

lemma floor_half: "\<lfloor>(1::rat) / 2\<rfloor> = 0"
  by (rule floor_unique) simp_all

lemma round2_clamp: "round2 (clamp y) = shown_value y"
proof (cases y)
  case (Fin q)
  show ?thesis
  proof (cases "q < 0")
    case True
    show ?thesis
      using True Fin
      by (simp add: clamp_def round2_def shown_value_def lit_0 lit_100 fmul_def fdiv_def is_inf_def
          is_zero_def signed_zero_def floor_half)
  next
    case False
    then have c: "clamp y = Fin q" using Fin by (simp add: clamp_def lit_0)
    have "fmul (Fin q) (Fin 100) = PInf \<or> (\<exists>h. 0 \<le> h \<and> fmul (Fin q) (Fin 100) = Fin h)"
    proof (cases "q = 0")
      case True
      then show ?thesis by (simp add: fmul_def is_inf_def is_zero_def signed_zero_def)
    next
      case q: False
      have "0 \<le> q * 100" using False by simp
      from rnd_nonneg_cases [OF this] show ?thesis
        using q by (simp add: fmul_def is_inf_def is_zero_def)
    qed
    then show ?thesis
    proof
      assume p: "fmul (Fin q) (Fin 100) = PInf"
      show ?thesis
        unfolding c round2_def lit_100 p using False Fin p
        by (simp add: shown_value_def fdiv_def is_inf_def signed_inf_def)
    next
      assume "\<exists>h. 0 \<le> h \<and> fmul (Fin q) (Fin 100) = Fin h"
      then obtain h where h: "0 \<le> h" "fmul (Fin q) (Fin 100) = Fin h" by blast
      show ?thesis
        unfolding c round2_def lit_100 h(2) using False Fin h
        by (simp only: round2_nonneg shown_value_def jsnum.case if_False)
    qed
  qed
qed (simp_all add: clamp_def round2_def shown_value_def lit_0 lit_100 fmul_def fdiv_def is_inf_def
      is_zero_def signed_zero_def signed_inf_def floor_half)

section \<open>Evaluating single operations\<close>

text \<open>
  Each lemma of the next sections evaluates one operation of the script on binary64 values;
  the proof names the binary exponent of the exact result and computes the rounding.
\<close>

lemma floor_numeral_frac: "\<lfloor>(numeral a / numeral b :: rat)\<rfloor> = numeral a div numeral b"
  using floor_divide_of_int_eq [of "numeral a" "numeral b", where ?'a = rat] by simp

lemma rnd_normal_neg:
  assumes lo: "2 powi e \<le> q" and hi: "q < 2 powi (e + 1)" and e: "- 1022 \<le> e" "e \<le> 1022"
  shows "rnd (- q) = Fin (- (of_int (round_half_even (q / 2 powi (e - 52))) * 2 powi (e - 52)))"
proof -
  define v :: rat where "v = of_int (round_half_even (q / 2 powi (e - 52))) * 2 powi (e - 52)"
  have r: "rnd q = Fin v" unfolding v_def using assms by (rule rnd_normal)
  have pos: "0 < q" using lo by (meson less_le_trans zero_less_numeral zero_less_power_int)
  have "(2::rat) powi (- 1075) < 2 powi e" using e by (intro power_int_strict_increasing) auto
  then have "2 powi (- 1075) < \<bar>q\<bar>" using lo pos by simp
  then have "0 < round_mag \<bar>q\<bar>" by (rule round_mag_pos)
  then have "v \<noteq> 0" using r pos by (auto simp: rnd_def Let_def split: if_splits)
  then have "rnd (- q) = Fin (- v)" using rnd_minus [of q] r pos by simp
  then show ?thesis by (simp only: v_def)
qed

lemma rnd_overflow:
  assumes "2 powi 1024 \<le> q"
  shows "rnd q = PInf"
proof -
  have pos: "0 < q" using assms by (meson less_le_trans zero_less_numeral zero_less_power_int)
  define e where "e = ilog2 q"
  have b: "2 powi e \<le> q" "q < 2 powi (e + 1)" using ilog2_bounds [OF pos] by (auto simp: e_def)
  have "(2::rat) powi 1024 < 2 powi (e + 1)" using assms b(2) by (rule le_less_trans)
  then have e: "1024 < e + 1" by (rule powi2_less_imp)
  define n where "n = round_half_even (q / 2 powi (e - 52))"
  have rm: "round_mag \<bar>q\<bar> = of_int n * 2 powi (e - 52)"
    using pos e by (simp add: round_mag_def e_def n_def Let_def)
  have "(2::rat) ^ 52 = 2 powi e / 2 powi (e - 52)" by (simp add: power_int_diff)
  also have "\<dots> \<le> q / 2 powi (e - 52)" using b(1) by (simp add: divide_right_mono)
  finally have "of_int (2 ^ 52) \<le> q / 2 powi (e - 52)" by simp
  then have n_lo: "2 ^ 52 \<le> n" unfolding n_def by (rule rhe_lower)
  have e0: "int 52 + (e - 52) = e" by simp
  have "(2::rat) powi 1024 \<le> 2 powi e" using e by (intro powi2_mono) simp
  also have "\<dots> = 2 ^ 52 * (2::rat) powi (e - 52)"
    using powi2_split [of 52 "e - 52"] by (simp only: e0)
  also have "\<dots> \<le> of_int n * 2 powi (e - 52)"
  proof -
    have "rat_of_int (2 ^ 52) \<le> of_int n" using n_lo by (simp only: of_int_le_iff)
    then show ?thesis by simp
  qed
  finally have "2 powi 1024 \<le> round_mag \<bar>q\<bar>" unfolding rm .
  then show ?thesis using pos by (simp add: rnd_def Let_def)
qed

text \<open>
  The four literals of the Tur formula.
\<close>

lemma tur_intercept: "lit 3.32843850766629 = Fin (7494977211425757 / 2 ^ 51)"
  unfolding lit_def by (subst rnd_normal [of 1]) (simp_all add: rhe_numeral_frac rhe_numeral Let_def)

lemma tur_coeff_rain: "lit 0.00459239788361382 = Fin (5294674277729345 / 2 ^ 60)"
  unfolding lit_def by (subst rnd_normal [of "- 8"]) (simp_all add: rhe_numeral_frac rhe_numeral Let_def)

lemma tur_coeff_area: "lit 4.33370044211268 = Fin (4879312924058505 / 2 ^ 50)"
  unfolding lit_def by (subst rnd_normal [of 2]) (simp_all add: rhe_numeral_frac rhe_numeral Let_def)

lemma tur_coeff_fert: "lit 0.0763918341341603 = Fin (5504611771852049 / 2 ^ 56)"
  unfolding lit_def by (subst rnd_normal [of "- 4"]) (simp_all add: rhe_numeral_frac rhe_numeral Let_def)

section \<open>A worked example\<close>

text \<open>
  The Tur example of the specification: area 1, rainfall 500, fertilizer 50. The regression
  value is the Number written 7.121052582961315 and the result is the Number nearest to 7.12.
\<close>

lemma parseNumber_500: "parseNumber (Some (utf16 ''500'')) = Some (Fin 500)"
  using rnd_int [of 500]
  by (simp add: parseNumber_def parseFloat_def fraction_part_def isNaN_def is_ws_def is_digit_def
      digits_val_def digit_val_def exponent_part_def signed_zero_def utf16_def)

lemma parseNumber_50: "parseNumber (Some (utf16 ''50'')) = Some (Fin 50)"
  using rnd_int [of 50]
  by (simp add: parseNumber_def parseFloat_def fraction_part_def isNaN_def is_ws_def is_digit_def
      digits_val_def digit_val_def exponent_part_def signed_zero_def utf16_def)

lemma worked_rain_term:
  "fmul (Fin (5294674277729345 / 2 ^ 60)) (Fin 500) =
     Fin (5170580349345063 / 2 ^ 51)"
  apply (simp add: fmul_def is_inf_def is_zero_def signed_zero_def signed_inf_def)
  by (subst rnd_normal [of 1]) (simp_all add: rhe_numeral_frac rhe_numeral Let_def)

lemma worked_sum1:
  "fadd (fneg (Fin (7494977211425757 / 2 ^ 51))) (Fin (5170580349345063 / 2 ^ 51)) =
     Fin (- (1162198431040347 / 2 ^ 50))"
  apply (simp add: fadd_def is_inf_def Let_def)
  by (subst rnd_normal_neg [of 0]) (simp_all add: rhe_numeral_frac rhe_numeral Let_def)

lemma worked_area_term:
  "fmul (Fin (4879312924058505 / 2 ^ 50)) (Fin 1) =
     Fin (4879312924058505 / 2 ^ 50)"
  apply (simp add: fmul_def is_inf_def is_zero_def signed_zero_def signed_inf_def)
  by (subst rnd_normal [of 2]) (simp_all add: rhe_numeral_frac rhe_numeral Let_def)

lemma worked_sum2:
  "fadd (Fin (- (1162198431040347 / 2 ^ 50))) (Fin (4879312924058505 / 2 ^ 50)) =
     Fin (1858557246509079 / 2 ^ 49)"
  apply (simp add: fadd_def is_inf_def Let_def)
  by (subst rnd_normal [of 1]) (simp_all add: rhe_numeral_frac rhe_numeral Let_def)

lemma worked_fert_term:
  "fmul (Fin (5504611771852049 / 2 ^ 56)) (Fin 50) =
     Fin (8600955893518827 / 2 ^ 51)"
  apply (simp add: fmul_def is_inf_def is_zero_def signed_zero_def signed_inf_def)
  by (subst rnd_normal [of 1]) (simp_all add: rhe_numeral_frac rhe_numeral Let_def)

lemma worked_sum3:
  "fadd (Fin (1858557246509079 / 2 ^ 49)) (Fin (8600955893518827 / 2 ^ 51)) =
     Fin (2004398109944393 / 2 ^ 48)"
  apply (simp add: fadd_def is_inf_def Let_def)
  by (subst rnd_normal [of 2]) (simp_all add: rhe_numeral_frac rhe_numeral Let_def)

lemma worked_yield:
  "spec_tur (Fin 1) (Fin 500) (Fin 50) =
     Fin (2004398109944393 / 2 ^ 48)"
  unfolding spec_tur_eq tur_intercept tur_coeff_rain tur_coeff_area tur_coeff_fert
    worked_rain_term worked_sum1 worked_area_term worked_sum2 worked_fert_term worked_sum3
  by (rule refl)

lemma worked_clamp:
  "clamp (Fin (2004398109944393 / 2 ^ 48)) =
     Fin (2004398109944393 / 2 ^ 48)"
  by (simp add: clamp_def lit_0)

lemma worked_times_100:
  "fmul (Fin (2004398109944393 / 2 ^ 48)) (Fin 100) =
     Fin (1565936023394057 / 2 ^ 41)"
  apply (simp add: fmul_def is_inf_def is_zero_def signed_zero_def signed_inf_def)
  by (subst rnd_normal [of 9]) (simp_all add: rhe_numeral_frac rhe_numeral Let_def)

lemma worked_round:
  "math_round (Fin (1565936023394057 / 2 ^ 41)) =
     Fin 712"
  by (simp add: floor_numeral_frac signed_zero_def)

lemma worked_hundredths:
  "fdiv (Fin 712) (Fin 100) =
     Fin (8016407336719483 / 2 ^ 50)"
  apply (simp add: fdiv_def is_inf_def is_zero_def signed_zero_def signed_inf_def)
  by (subst rnd_normal [of 2]) (simp_all add: rhe_numeral_frac rhe_numeral Let_def)

lemma worked_value:
  "round2 (clamp (Fin (2004398109944393 / 2 ^ 48))) =
     Fin (8016407336719483 / 2 ^ 50)"
  unfolding round2_def worked_clamp lit_100 worked_times_100 worked_round worked_hundredths
  by (rule refl)

lemma worked_switch:
  "predict_switch tur_example_page =
     Inr (Fin (2004398109944393 / 2 ^ 48), '' (Tur)'')"
proof -
  have "predict_switch tur_example_page =
      Inr (spec_tur (Fin 1) (Fin 500) (Fin 50), '' (Tur)'')"
    by (simp add: switch_Inr case_tur_Inr tur_example_page_def blank_page_def lit_0
        parseNumber_1 parseNumber_500 parseNumber_50)
  then show ?thesis by (simp only: worked_yield)
qed

lemma worked_result:
  "predict numToString tur_example_page =
     Inr ((clearErrorAndResult tur_example_page)\<lparr>resultInput :=
            numToString (Fin (8016407336719483 / 2 ^ 50)) @ '' quintals (approx.) (Tur)''\<rparr>)"
  using predict_success [OF worked_switch] worked_value by simp

section \<open>The text of the result\<close>

text \<open>
  Claim C9. After a successful prediction the result field holds the text of the value
  shown for the regression value (that value clamped at zero and rounded as the script
  rounds), followed by \<^verbatim>\<open> quintals (approx.)\<close> and the label; the label is the one of the crop,
  and for Maize the one of the management selection; no error is displayed.
\<close>

theorem result_format:
  "predict_switch p = Inr (y, l) \<Longrightarrow>
     regression p = Some y \<and> l = shown_label p \<and>
     (\<exists>q. predict numToString p = Inr q \<and>
        resultInput q = numToString (shown_value y) @ '' quintals (approx.)'' @ shown_label p \<and>
        errorMsg_display q = ''none'' \<and> errorMsg_textContent q = []) \<and>
     shown_label p \<in> set ['' (Tur)'', '' (Maize, Good management)'', '' (Maize, Poor management)'',
                              '' (Gram)'']"
proof -
  assume sw: "predict_switch p = Inr (y, l)"
  have "predict numToString p =
      Inr ((clearErrorAndResult p)\<lparr>resultInput :=
         numToString (shown_value y) @ '' quintals (approx.)'' @ shown_label p\<rparr>)"
    using predict_success [OF sw] switch_label [OF sw] by (simp add: round2_clamp)
  then have "\<exists>q. predict numToString p = Inr q \<and>
        resultInput q = numToString (shown_value y) @ '' quintals (approx.)'' @ shown_label p \<and>
        errorMsg_display q = ''none'' \<and> errorMsg_textContent q = []"
    by (simp add: clearErrorAndResult_def)
  moreover have "shown_label p \<in> set ['' (Tur)'', '' (Maize, Good management)'',
      '' (Maize, Poor management)'', '' (Gram)'']"
    by (simp add: shown_label_def)
  ultimately show ?thesis using switch_regression [OF sw] switch_label [OF sw] by blast
qed

theorem result_format_witness:
  "predict_switch tur_example_page = Inr (Fin (2004398109944393 / 2 ^ 48), '' (Tur)'') \<and>
   regression tur_example_page = Some (Fin (2004398109944393 / 2 ^ 48)) \<and>
   shown_value (Fin (2004398109944393 / 2 ^ 48)) = Fin (8016407336719483 / 2 ^ 50) \<and>
   shown_label tur_example_page = '' (Tur)'' \<and>
   (\<forall>numToString. \<exists>q. predict numToString tur_example_page = Inr q \<and>
      resultInput q =
        numToString (Fin (8016407336719483 / 2 ^ 50)) @ '' quintals (approx.) (Tur)'' \<and>
      errorMsg_display q = ''none'' \<and> errorMsg_textContent q = []) \<and>
   predict_switch maize_page =
     Inr (spec_maize (Fin 1) (Fin 0) (Fin 0) ''good'', '' (Maize, Good management)'') \<and>
   shown_label maize_page = '' (Maize, Good management)''"
proof -
  have v: "shown_value (Fin (2004398109944393 / 2 ^ 48)) = Fin (8016407336719483 / 2 ^ 50)"
    using worked_value by (simp only: round2_clamp)
  show ?thesis
    using result_format [OF worked_switch] result_format [OF maize_page_switch]
      worked_switch maize_page_switch v
    by simp
qed

section \<open>The order of the checks\<close>

lemma case_tur_error:
  "result_error (case_tur p) =
     first_failure [(not_positive (tmArea p), ''Enter a valid positive area for Tur.''),
                    (negative (tmRainfall p), ''Enter rainfall (mm) for Tur.''),
                    (negative (tmFert p), ''Enter fertilizers (kg) for Tur.'')]"
  by (simp add: case_tur_def Let_def first_failure_def not_positive_def negative_def
      result_error_def split: option.splits)

lemma case_maize_error:
  "managementSelect p = Some m \<Longrightarrow>
   result_error (case_maize p) =
     first_failure [(not_positive (tmArea p), ''Enter a valid positive area for Maize.''),
                    (negative (tmRainfall p), ''Enter rainfall (mm) for Maize.''),
                    (negative (tmFert p), ''Enter fertilizers (kg) for Maize.''),
                    (m = [], ''Select quality of management for Maize.'')]"
  by (simp add: case_maize_def Let_def first_failure_def not_positive_def negative_def
      result_error_def split: option.splits)

lemma case_gram_error:
  "result_error (case_gram p) =
     first_failure [(negative (gRainSep p) \<or> negative (gRainOct p) \<or> negative (gRainNov p),
                     ''Enter rainfall for September, October, and November for Gram.''),
                    (not_positive (gArea p), ''Enter a valid positive area for Gram.''),
                    (negative (gFert p), ''Enter fertilizers (kg) for Gram.'')]"
  by (simp add: case_gram_def Let_def first_failure_def not_positive_def negative_def
      result_error_def split: option.splits)

text \<open>
  Claim C3, amended. On a page whose management select can be read, the error reported is
  the message of the first failing check in this order: crop identifier (selected, then
  known); for Tur and Maize area, rainfall, fertilizer and, for Maize, management; for Gram
  rainfall (the three months under one message), then area, then fertilizer. No error is
  reported exactly when no check fails.
\<close>

theorem first_failing_check_reported:
  "management_readable p \<Longrightarrow>
   result_error (predict_switch p) = first_failure (ordered_checks p)"
proof -
  assume rd: "management_readable p"
  consider "cropSelect p = []" | "cropSelect p = ''tur''" | "cropSelect p = ''maize''"
    | "cropSelect p = ''gram''"
    | "cropSelect p \<noteq> []" "cropSelect p \<notin> set [''tur'', ''maize'', ''gram'']"
    by auto
  then show ?thesis
  proof cases
    case 1
    then show ?thesis
      by (simp add: predict_switch_def ordered_checks_def crop_checks_def first_failure_def
          result_error_def)
  next
    case 2
    then have "predict_switch p = case_tur p" by (simp add: predict_switch_def)
    then show ?thesis
      using 2 by (simp add: case_tur_error ordered_checks_def crop_checks_def first_failure_def
          area_check_def rainfall_check_def fertilizer_check_def management_check_def)
  next
    case 3
    then have sw: "predict_switch p = case_maize p" by (simp add: predict_switch_def)
    from rd 3 obtain m where m: "managementSelect p = Some m"
      by (auto simp: management_readable_def)
    show ?thesis
      using 3 m unfolding sw case_maize_error [OF m]
      by (simp add: ordered_checks_def crop_checks_def first_failure_def
          area_check_def rainfall_check_def fertilizer_check_def management_check_def)
  next
    case 4
    then have "predict_switch p = case_gram p" by (simp add: predict_switch_def)
    then show ?thesis
      using 4 by (simp add: case_gram_error ordered_checks_def crop_checks_def first_failure_def
          area_check_def rainfall_check_def fertilizer_check_def management_check_def)
  next
    case 5
    then show ?thesis
      by (simp add: predict_switch_def ordered_checks_def crop_checks_def first_failure_def
          result_error_def)
  qed
qed

lemma gram_blank_checks:
  "negative (gRainSep gram_blank_page)" "not_positive (gArea gram_blank_page)"
  "cropSelect gram_blank_page = ''gram''"
  by (simp_all add: gram_blank_page_def blank_page_def negative_def not_positive_def
      parseNumber_empty)

theorem first_failing_check_reported_witness:
  "management_readable gram_blank_page \<and>
   result_error (predict_switch gram_blank_page) = first_failure (ordered_checks gram_blank_page) \<and>
   first_failure (ordered_checks gram_blank_page) =
     Some ''Enter rainfall for September, October, and November for Gram.'' \<and>
   management_readable (maize_page\<lparr>managementSelect := Some []\<rparr>) \<and>
   result_error (predict_switch (maize_page\<lparr>managementSelect := Some []\<rparr>)) =
     first_failure (ordered_checks (maize_page\<lparr>managementSelect := Some []\<rparr>)) \<and>
   first_failure (ordered_checks (maize_page\<lparr>managementSelect := Some []\<rparr>)) =
     Some ''Select quality of management for Maize.''"
proof -
  have g: "management_readable gram_blank_page"
    by (simp add: management_readable_def gram_blank_page_def blank_page_def)
  have m: "management_readable (maize_page\<lparr>managementSelect := Some []\<rparr>)"
    by (simp add: management_readable_def)
  have c: "first_failure (ordered_checks (maize_page\<lparr>managementSelect := Some []\<rparr>)) =
      Some ''Select quality of management for Maize.''"
    by (simp add: ordered_checks_def crop_checks_def first_failure_def area_check_def
        rainfall_check_def fertilizer_check_def management_check_def maize_page_def blank_page_def
        not_positive_def negative_def parseNumber_0 parseNumber_1 lit_0)
  show ?thesis
    using first_failing_check_reported [OF g] first_failing_check_reported [OF m] g m c
      gram_blank_checks
    by (simp add: ordered_checks_def crop_checks_def first_failure_def rainfall_check_def)
qed

text \<open>
  Claim C3 as stated fails: with Gram selected and every field empty, the area check comes
  first in the stated order, but the script reports the rainfall message.
\<close>

theorem spec_order_counterexample:
  "result_error (predict_switch gram_blank_page) =
     Some ''Enter rainfall for September, October, and November for Gram.'' \<and>
   first_failure (spec_checks gram_blank_page) = Some ''Enter a valid positive area for Gram.'' \<and>
   result_error (predict_switch gram_blank_page) \<noteq> first_failure (spec_checks gram_blank_page)"
proof -
  have "predict_switch gram_blank_page = case_gram gram_blank_page"
    using gram_blank_checks(3) by (simp add: predict_switch_def)
  then show ?thesis
    using gram_blank_checks
    by (simp add: case_gram_error spec_checks_def crop_checks_def first_failure_def
        area_check_def)
qed

section \<open>Boundary values\<close>

lemma fle_zero: "is_zero z \<Longrightarrow> fle z (lit 0)"
  by (auto simp: is_zero_def lit_0)

lemma flt_zero: "is_zero z \<Longrightarrow> \<not> flt z (lit 0)"
  by (auto simp: is_zero_def lit_0)

lemma predict_rejected:
  assumes "result_error (predict_switch p) \<noteq> None"
  shows "\<exists>q. predict numToString p = Inr q \<and> resultInput q = [] \<and> errorMsg_display q = ''block''"
proof -
  from assms obtain msg where "result_error (predict_switch p) = Some msg" by blast
  then have "predict numToString p = Inr (showError msg p)" by (rule predict_failure)
  then show ?thesis by (simp add: showError_def)
qed

lemma predict_filled:
  assumes "predict_switch p = Inr (y, l)"
  shows "\<exists>q. predict numToString p = Inr q \<and> resultInput q \<noteq> []"
  using predict_success [OF assms] by simp

text \<open>
  Claim C6. For each crop an area field that parses to zero is rejected: an error is
  reported (for Tur and Maize the area message, the area being their first check) and the
  result field stays empty. With a positive area (and, for Maize, a management selection),
  rainfall and fertilizer fields that parse to zero are accepted: the switch returns the
  regression value and the result field is filled. For Maize the page has its management
  select.
\<close>

theorem zero_boundaries:
  "(cropSelect p = ''tur'' \<and> parseNumber (tmArea p) = Some z \<and> is_zero z \<longrightarrow>
      result_error (predict_switch p) = Some ''Enter a valid positive area for Tur.'' \<and>
      (\<exists>q. predict numToString p = Inr q \<and> resultInput q = [])) \<and>
   (cropSelect p = ''maize'' \<and> managementSelect p \<noteq> None \<and>
    parseNumber (tmArea p) = Some z \<and> is_zero z \<longrightarrow>
      result_error (predict_switch p) = Some ''Enter a valid positive area for Maize.'' \<and>
      (\<exists>q. predict numToString p = Inr q \<and> resultInput q = [])) \<and>
   (cropSelect p = ''gram'' \<and> parseNumber (gArea p) = Some z \<and> is_zero z \<longrightarrow>
      result_error (predict_switch p) \<noteq> None \<and>
      (\<exists>q. predict numToString p = Inr q \<and> resultInput q = [])) \<and>
   (cropSelect p = ''tur'' \<and> parseNumber (tmArea p) = Some a \<and> \<not> fle a (lit 0) \<and>
    parseNumber (tmRainfall p) = Some r \<and> is_zero r \<and>
    parseNumber (tmFert p) = Some f \<and> is_zero f \<longrightarrow>
      predict_switch p = Inr (spec_tur a r f, '' (Tur)'') \<and>
      (\<exists>q. predict numToString p = Inr q \<and> resultInput q \<noteq> [])) \<and>
   (cropSelect p = ''maize'' \<and> parseNumber (tmArea p) = Some a \<and> \<not> fle a (lit 0) \<and>
    parseNumber (tmRainfall p) = Some r \<and> is_zero r \<and>
    parseNumber (tmFert p) = Some f \<and> is_zero f \<and> managementSelect p = Some m \<and> m \<noteq> [] \<longrightarrow>
      result_yield (predict_switch p) = Some (spec_maize a r f m) \<and>
      (\<exists>q. predict numToString p = Inr q \<and> resultInput q \<noteq> [])) \<and>
   (cropSelect p = ''gram'' \<and> parseNumber (gArea p) = Some a \<and> \<not> fle a (lit 0) \<and>
    parseNumber (gRainSep p) = Some r9 \<and> is_zero r9 \<and>
    parseNumber (gRainOct p) = Some r10 \<and> is_zero r10 \<and>
    parseNumber (gRainNov p) = Some r11 \<and> is_zero r11 \<and>
    parseNumber (gFert p) = Some f \<and> is_zero f \<longrightarrow>
      predict_switch p = Inr (spec_gram a r9 r10 r11 f, '' (Gram)'') \<and>
      (\<exists>q. predict numToString p = Inr q \<and> resultInput q \<noteq> []))"
proof (intro conjI impI)
  assume h: "cropSelect p = ''tur'' \<and> parseNumber (tmArea p) = Some z \<and> is_zero z"
  then have "not_positive (tmArea p)" by (simp add: not_positive_def fle_zero)
  moreover have "predict_switch p = case_tur p" using h by (simp add: predict_switch_def)
  ultimately show e: "result_error (predict_switch p) = Some ''Enter a valid positive area for Tur.''"
    by (simp add: case_tur_error first_failure_def)
  show "\<exists>q. predict numToString p = Inr q \<and> resultInput q = []"
    using predict_rejected [of p] e by auto
next
  assume h: "cropSelect p = ''maize'' \<and> managementSelect p \<noteq> None \<and>
    parseNumber (tmArea p) = Some z \<and> is_zero z"
  then obtain m where m: "managementSelect p = Some m" by auto
  have "not_positive (tmArea p)" using h by (simp add: not_positive_def fle_zero)
  moreover have "predict_switch p = case_maize p" using h by (simp add: predict_switch_def)
  ultimately show e: "result_error (predict_switch p) = Some ''Enter a valid positive area for Maize.''"
    by (simp add: case_maize_error [OF m] first_failure_def)
  show "\<exists>q. predict numToString p = Inr q \<and> resultInput q = []"
    using predict_rejected [of p] e by auto
next
  assume h: "cropSelect p = ''gram'' \<and> parseNumber (gArea p) = Some z \<and> is_zero z"
  then have "not_positive (gArea p)" by (simp add: not_positive_def fle_zero)
  moreover have "predict_switch p = case_gram p" using h by (simp add: predict_switch_def)
  ultimately show e: "result_error (predict_switch p) \<noteq> None"
    by (auto simp: case_gram_error first_failure_def)
  show "\<exists>q. predict numToString p = Inr q \<and> resultInput q = []"
    using predict_rejected [OF e] by auto
next
  assume h: "cropSelect p = ''tur'' \<and> parseNumber (tmArea p) = Some a \<and> \<not> fle a (lit 0) \<and>
    parseNumber (tmRainfall p) = Some r \<and> is_zero r \<and>
    parseNumber (tmFert p) = Some f \<and> is_zero f"
  then show s: "predict_switch p = Inr (spec_tur a r f, '' (Tur)'')"
    by (simp add: switch_Inr case_tur_Inr flt_zero)
  show "\<exists>q. predict numToString p = Inr q \<and> resultInput q \<noteq> []" using s by (rule predict_filled)
next
  assume h: "cropSelect p = ''maize'' \<and> parseNumber (tmArea p) = Some a \<and> \<not> fle a (lit 0) \<and>
    parseNumber (tmRainfall p) = Some r \<and> is_zero r \<and>
    parseNumber (tmFert p) = Some f \<and> is_zero f \<and> managementSelect p = Some m \<and> m \<noteq> []"
  then have s: "predict_switch p = Inr (spec_maize a r f m,
      if m = ''poor'' then '' (Maize, Poor management)''
      else '' (Maize, Good management)'')"
    by (simp add: switch_Inr case_maize_Inr flt_zero)
  then show "result_yield (predict_switch p) = Some (spec_maize a r f m)"
    by (simp add: result_yield_def)
  show "\<exists>q. predict numToString p = Inr q \<and> resultInput q \<noteq> []" using s by (rule predict_filled)
next
  assume h: "cropSelect p = ''gram'' \<and> parseNumber (gArea p) = Some a \<and> \<not> fle a (lit 0) \<and>
    parseNumber (gRainSep p) = Some r9 \<and> is_zero r9 \<and>
    parseNumber (gRainOct p) = Some r10 \<and> is_zero r10 \<and>
    parseNumber (gRainNov p) = Some r11 \<and> is_zero r11 \<and>
    parseNumber (gFert p) = Some f \<and> is_zero f"
  then show s: "predict_switch p = Inr (spec_gram a r9 r10 r11 f, '' (Gram)'')"
    by (simp add: switch_Inr case_gram_Inr flt_zero)
  show "\<exists>q. predict numToString p = Inr q \<and> resultInput q \<noteq> []" using s by (rule predict_filled)
qed

lemma tur_zero_area:
  "cropSelect (tur_page\<lparr>tmArea := Some (utf16 ''0'')\<rparr>) = ''tur'' \<and>
   parseNumber (tmArea (tur_page\<lparr>tmArea := Some (utf16 ''0'')\<rparr>)) = Some (Fin 0) \<and> is_zero (Fin 0)"
  by (simp add: tur_page_def blank_page_def parseNumber_0 is_zero_def)

lemma maize_zero_area:
  "cropSelect (maize_page\<lparr>tmArea := Some (utf16 ''0'')\<rparr>) = ''maize'' \<and>
   managementSelect (maize_page\<lparr>tmArea := Some (utf16 ''0'')\<rparr>) \<noteq> None \<and>
   parseNumber (tmArea (maize_page\<lparr>tmArea := Some (utf16 ''0'')\<rparr>)) = Some (Fin 0) \<and> is_zero (Fin 0)"
  by (simp add: maize_page_def blank_page_def parseNumber_0 is_zero_def)

lemma gram_zero_area:
  "cropSelect (gram_page\<lparr>gArea := Some (utf16 ''0'')\<rparr>) = ''gram'' \<and>
   parseNumber (gArea (gram_page\<lparr>gArea := Some (utf16 ''0'')\<rparr>)) = Some (Fin 0) \<and> is_zero (Fin 0)"
  by (simp add: gram_page_def blank_page_def parseNumber_0 is_zero_def)

lemma tur_page_fields:
  "cropSelect tur_page = ''tur'' \<and> parseNumber (tmArea tur_page) = Some (Fin 1) \<and>
   \<not> fle (Fin 1) (lit 0) \<and>
   parseNumber (tmRainfall tur_page) = Some (Fin 0) \<and> is_zero (Fin 0) \<and>
   parseNumber (tmFert tur_page) = Some (Fin 0) \<and> is_zero (Fin 0)"
  by (simp add: tur_page_def blank_page_def parseNumber_0 parseNumber_1 is_zero_def lit_0)

lemma maize_page_fields:
  "cropSelect maize_page = ''maize'' \<and> parseNumber (tmArea maize_page) = Some (Fin 1) \<and>
   \<not> fle (Fin 1) (lit 0) \<and>
   parseNumber (tmRainfall maize_page) = Some (Fin 0) \<and> is_zero (Fin 0) \<and>
   parseNumber (tmFert maize_page) = Some (Fin 0) \<and> is_zero (Fin 0) \<and>
   managementSelect maize_page = Some ''good'' \<and> ''good'' \<noteq> []"
  by (simp add: maize_page_def blank_page_def parseNumber_0 parseNumber_1 is_zero_def lit_0)

lemma gram_page_fields:
  "cropSelect gram_page = ''gram'' \<and> parseNumber (gArea gram_page) = Some (Fin 1) \<and>
   \<not> fle (Fin 1) (lit 0) \<and>
   parseNumber (gRainSep gram_page) = Some (Fin 0) \<and> is_zero (Fin 0) \<and>
   parseNumber (gRainOct gram_page) = Some (Fin 0) \<and> is_zero (Fin 0) \<and>
   parseNumber (gRainNov gram_page) = Some (Fin 0) \<and> is_zero (Fin 0) \<and>
   parseNumber (gFert gram_page) = Some (Fin 0) \<and> is_zero (Fin 0)"
  by (simp add: gram_page_def blank_page_def parseNumber_0 parseNumber_1 is_zero_def lit_0)

theorem zero_boundaries_witness:
  "(cropSelect (tur_page\<lparr>tmArea := Some (utf16 ''0'')\<rparr>) = ''tur'' \<and>
    parseNumber (tmArea (tur_page\<lparr>tmArea := Some (utf16 ''0'')\<rparr>)) = Some (Fin 0) \<and> is_zero (Fin 0) \<and>
    result_error (predict_switch (tur_page\<lparr>tmArea := Some (utf16 ''0'')\<rparr>)) =
      Some ''Enter a valid positive area for Tur.'') \<and>
   (cropSelect (maize_page\<lparr>tmArea := Some (utf16 ''0'')\<rparr>) = ''maize'' \<and>
    managementSelect (maize_page\<lparr>tmArea := Some (utf16 ''0'')\<rparr>) \<noteq> None \<and>
    parseNumber (tmArea (maize_page\<lparr>tmArea := Some (utf16 ''0'')\<rparr>)) = Some (Fin 0) \<and>
    result_error (predict_switch (maize_page\<lparr>tmArea := Some (utf16 ''0'')\<rparr>)) =
      Some ''Enter a valid positive area for Maize.'') \<and>
   (cropSelect (gram_page\<lparr>gArea := Some (utf16 ''0'')\<rparr>) = ''gram'' \<and>
    parseNumber (gArea (gram_page\<lparr>gArea := Some (utf16 ''0'')\<rparr>)) = Some (Fin 0) \<and>
    result_error (predict_switch (gram_page\<lparr>gArea := Some (utf16 ''0'')\<rparr>)) \<noteq> None) \<and>
   (cropSelect tur_page = ''tur'' \<and> parseNumber (tmArea tur_page) = Some (Fin 1) \<and>
    \<not> fle (Fin 1) (lit 0) \<and>
    parseNumber (tmRainfall tur_page) = Some (Fin 0) \<and>
    parseNumber (tmFert tur_page) = Some (Fin 0) \<and>
    predict_switch tur_page = Inr (spec_tur (Fin 1) (Fin 0) (Fin 0), '' (Tur)'')) \<and>
   (cropSelect maize_page = ''maize'' \<and> parseNumber (tmArea maize_page) = Some (Fin 1) \<and>
    parseNumber (tmRainfall maize_page) = Some (Fin 0) \<and>
    parseNumber (tmFert maize_page) = Some (Fin 0) \<and> managementSelect maize_page = Some ''good'' \<and>
    result_yield (predict_switch maize_page) =
      Some (spec_maize (Fin 1) (Fin 0) (Fin 0) ''good'')) \<and>
   (cropSelect gram_page = ''gram'' \<and> parseNumber (gArea gram_page) = Some (Fin 1) \<and>
    parseNumber (gRainSep gram_page) = Some (Fin 0) \<and>
    parseNumber (gRainOct gram_page) = Some (Fin 0) \<and>
    parseNumber (gRainNov gram_page) = Some (Fin 0) \<and>
    parseNumber (gFert gram_page) = Some (Fin 0) \<and>
    predict_switch gram_page = Inr (spec_gram (Fin 1) (Fin 0) (Fin 0) (Fin 0) (Fin 0), '' (Gram)'')) \<and>
   (\<forall>numToString.
      (\<exists>q. predict numToString (tur_page\<lparr>tmArea := Some (utf16 ''0'')\<rparr>) = Inr q \<and> resultInput q = []) \<and>
      (\<exists>q. predict numToString (maize_page\<lparr>tmArea := Some (utf16 ''0'')\<rparr>) = Inr q \<and>
         resultInput q = []) \<and>
      (\<exists>q. predict numToString (gram_page\<lparr>gArea := Some (utf16 ''0'')\<rparr>) = Inr q \<and> resultInput q = []) \<and>
      (\<exists>q. predict numToString tur_page = Inr q \<and> resultInput q \<noteq> []) \<and>
      (\<exists>q. predict numToString maize_page = Inr q \<and> resultInput q \<noteq> []) \<and>
      (\<exists>q. predict numToString gram_page = Inr q \<and> resultInput q \<noteq> []))"
  using zero_boundaries [where p = "tur_page\<lparr>tmArea := Some (utf16 ''0'')\<rparr>" and z = "Fin 0"]
    tur_zero_area
    zero_boundaries [where p = "maize_page\<lparr>tmArea := Some (utf16 ''0'')\<rparr>" and z = "Fin 0"]
    maize_zero_area
    zero_boundaries [where p = "gram_page\<lparr>gArea := Some (utf16 ''0'')\<rparr>" and z = "Fin 0"]
    gram_zero_area
    zero_boundaries [where p = tur_page and a = "Fin 1" and r = "Fin 0" and f = "Fin 0"]
    tur_page_fields
    zero_boundaries [where p = maize_page and a = "Fin 1" and r = "Fin 0" and f = "Fin 0"
      and m = "''good''"]
    maize_page_fields
    zero_boundaries [where p = gram_page and a = "Fin 1" and ?r9.0 = "Fin 0" and ?r10.0 = "Fin 0"
      and ?r11.0 = "Fin 0" and f = "Fin 0"]
    gram_page_fields
  by simp

section \<open>The management selection\<close>

text \<open>
  Claim C7, amended. The identifiers of the two management qualities are \<^verbatim>\<open>good\<close> and
  \<^verbatim>\<open>poor\<close>. For Maize an empty management selection is always an error, and once the three
  numeric fields are valid it is the management message. The selection \<^verbatim>\<open>poor\<close> gives the
  factor 0.75 and the Poor label; every other non-empty selection, \<^verbatim>\<open>good\<close> or not, gives the
  factor 1.0 and the Good label.
\<close>

theorem maize_management:
  "(cropSelect p = ''maize'' \<and> managementSelect p = Some [] \<longrightarrow>
      result_error (predict_switch p) \<noteq> None) \<and>
   (cropSelect p = ''maize'' \<and> parseNumber (tmArea p) = Some a \<and> \<not> fle a (lit 0) \<and>
    parseNumber (tmRainfall p) = Some r \<and> \<not> flt r (lit 0) \<and>
    parseNumber (tmFert p) = Some f \<and> \<not> flt f (lit 0) \<longrightarrow>
      (managementSelect p = Some [] \<longrightarrow>
         predict_switch p = Inl (Rejected ''Select quality of management for Maize.'')) \<and>
      (managementSelect p = Some ''poor'' \<longrightarrow>
         predict_switch p =
           Inr (fmul (spec_maize_base a r f) (lit 0.75), '' (Maize, Poor management)'')) \<and>
      (managementSelect p = Some m \<and> m \<noteq> [] \<and> m \<noteq> ''poor'' \<longrightarrow>
         predict_switch p =
           Inr (fmul (spec_maize_base a r f) (lit 1.0), '' (Maize, Good management)'')))"
proof (intro conjI impI)
  assume h: "cropSelect p = ''maize'' \<and> managementSelect p = Some []"
  then have "predict_switch p = case_maize p" by (simp add: predict_switch_def)
  then show "result_error (predict_switch p) \<noteq> None"
    using h case_maize_error [of p "[]"] by (auto simp: first_failure_def)
next
  assume h: "cropSelect p = ''maize'' \<and> parseNumber (tmArea p) = Some a \<and> \<not> fle a (lit 0) \<and>
    parseNumber (tmRainfall p) = Some r \<and> \<not> flt r (lit 0) \<and>
    parseNumber (tmFert p) = Some f \<and> \<not> flt f (lit 0)"
  then have sw: "predict_switch p = case_maize p" by (simp add: predict_switch_def)
  {
    assume m: "managementSelect p = Some []"
    have "result_error (case_maize p) = Some ''Select quality of management for Maize.''"
      using h by (simp add: case_maize_error [OF m] first_failure_def not_positive_def negative_def)
    then show "predict_switch p = Inl (Rejected ''Select quality of management for Maize.'')"
      using sw by (simp add: result_error_Some)
  next
    assume m: "managementSelect p = Some ''poor''"
    show "predict_switch p =
        Inr (fmul (spec_maize_base a r f) (lit 0.75), '' (Maize, Poor management)'')"
      using h m unfolding sw case_maize_Inr by (simp add: spec_maize_def managementFactor_def)
  next
    assume m: "managementSelect p = Some m \<and> m \<noteq> [] \<and> m \<noteq> ''poor''"
    show "predict_switch p =
        Inr (fmul (spec_maize_base a r f) (lit 1.0), '' (Maize, Good management)'')"
      using h m unfolding sw case_maize_Inr by (simp add: spec_maize_def managementFactor_def)
  }
qed

lemma maize_fields:
  "cropSelect (maize_page\<lparr>managementSelect := m\<rparr>) = ''maize'' \<and>
   parseNumber (tmArea (maize_page\<lparr>managementSelect := m\<rparr>)) = Some (Fin 1) \<and>
   \<not> fle (Fin 1) (lit 0) \<and>
   parseNumber (tmRainfall (maize_page\<lparr>managementSelect := m\<rparr>)) = Some (Fin 0) \<and>
   \<not> flt (Fin 0) (lit 0) \<and>
   parseNumber (tmFert (maize_page\<lparr>managementSelect := m\<rparr>)) = Some (Fin 0) \<and>
   managementSelect (maize_page\<lparr>managementSelect := m\<rparr>) = m"
  by (simp add: maize_page_def blank_page_def parseNumber_0 parseNumber_1 lit_0)

theorem maize_management_witness:
  "cropSelect (maize_page\<lparr>managementSelect := Some []\<rparr>) = ''maize'' \<and>
   managementSelect (maize_page\<lparr>managementSelect := Some []\<rparr>) = Some [] \<and>
   parseNumber (tmArea (maize_page\<lparr>managementSelect := Some []\<rparr>)) = Some (Fin 1) \<and>
   \<not> fle (Fin 1) (lit 0) \<and>
   parseNumber (tmRainfall (maize_page\<lparr>managementSelect := Some []\<rparr>)) = Some (Fin 0) \<and>
   \<not> flt (Fin 0) (lit 0) \<and>
   parseNumber (tmFert (maize_page\<lparr>managementSelect := Some []\<rparr>)) = Some (Fin 0) \<and>
   result_error (predict_switch (maize_page\<lparr>managementSelect := Some []\<rparr>)) \<noteq> None \<and>
   predict_switch (maize_page\<lparr>managementSelect := Some []\<rparr>) =
     Inl (Rejected ''Select quality of management for Maize.'') \<and>
   predict_switch (maize_page\<lparr>managementSelect := Some ''poor''\<rparr>) =
     Inr (fmul (spec_maize_base (Fin 1) (Fin 0) (Fin 0)) (lit 0.75), '' (Maize, Poor management)'') \<and>
   predict_switch (maize_page\<lparr>managementSelect := Some ''excellent''\<rparr>) =
     Inr (fmul (spec_maize_base (Fin 1) (Fin 0) (Fin 0)) (lit 1.0), '' (Maize, Good management)'')"
  using maize_management [where p = "maize_page\<lparr>managementSelect := Some []\<rparr>" and a = "Fin 1"
      and r = "Fin 0" and f = "Fin 0"] maize_fields [of "Some []"]
    maize_management [where p = "maize_page\<lparr>managementSelect := Some ''poor''\<rparr>" and a = "Fin 1"
      and r = "Fin 0" and f = "Fin 0"] maize_fields [of "Some ''poor''"]
    maize_management [where p = "maize_page\<lparr>managementSelect := Some ''excellent''\<rparr>" and a = "Fin 1"
      and r = "Fin 0" and f = "Fin 0" and m = "''excellent''"] maize_fields [of "Some ''excellent''"]
  by (simp add: result_error_def)

text \<open>
  Claim C7 as stated fails: the selection \<^verbatim>\<open>average\<close> is neither quality, yet no error is
  reported and the prediction is the one of Good management, with its label.
\<close>

theorem default_management_counterexample:
  "managementSelect maize_average_page = Some ''average'' \<and>
   ''average'' \<notin> set [''good'', ''poor''] \<and>
   result_error (predict_switch maize_average_page) = None \<and>
   result_label (predict_switch maize_average_page) = Some '' (Maize, Good management)'' \<and>
   result_yield (predict_switch maize_average_page) = result_yield (predict_switch maize_page)"
proof -
  have "predict_switch maize_average_page =
      Inr (spec_maize (Fin 1) (Fin 0) (Fin 0) ''average'', '' (Maize, Good management)'')"
    unfolding maize_average_page_def using maize_fields [of "Some ''average''"]
    by (simp add: switch_Inr case_maize_Inr)
  moreover have "spec_maize (Fin 1) (Fin 0) (Fin 0) ''average'' =
      spec_maize (Fin 1) (Fin 0) (Fin 0) ''good''"
    by (simp add: spec_maize_def managementFactor_def)
  ultimately show ?thesis
    using maize_page_switch
    by (simp add: result_error_def result_label_def result_yield_def maize_average_page_def)
qed

section \<open>Absent elements\<close>

lemma case_tur_thrown: "case_tur p \<noteq> Inl (Thrown e)"
  by (simp add: case_tur_def Let_def split: option.splits)

lemma case_gram_thrown: "case_gram p \<noteq> Inl (Thrown e)"
  by (simp add: case_gram_def Let_def split: option.splits)

lemma case_maize_thrown: "case_maize p = Inl (Thrown e) \<longleftrightarrow> managementSelect p = None"
  by (cases e) (simp add: case_maize_def Let_def split: option.splits prod.splits)

lemma switch_thrown:
  "predict_switch p = Inl (Thrown e) \<longleftrightarrow> cropSelect p = ''maize'' \<and> managementSelect p = None"
  by (simp add: predict_switch_def Let_def case_tur_thrown case_gram_thrown case_maize_thrown)

lemma predict_thrown: "predict numToString p = Inl e \<longleftrightarrow> predict_switch p = Inl (Thrown e)"
  by (auto simp: predict_def Let_def switch_clear split: sum.splits abrupt.splits prod.splits)

text \<open>
  Claim C10, amended. \<open>parseNumber\<close> has a result for every argument and the result is \<^verbatim>\<open>null\<close>
  or a Number other than \<open>NaN\<close>; its body has no operation that throws (the element is read
  through \<^verbatim>\<open>?.\<close> and \<^verbatim>\<open>??\<close>). For an absent element the result is \<^verbatim>\<open>null\<close>, the same as for any
  text that does not parse. Hence on a page that lacks a numeric input of the selected crop
  \<open>predict\<close> returns, with a validation error and an empty result field. The management
  select is read without such a guard: when Maize is selected and the page has no management
  select, \<open>predict\<close> throws a \<^verbatim>\<open>TypeError\<close>. On the pages of the model, which have their crop
  select and their two output elements, it returns in every other case.
\<close>

theorem parseNumber_total:
  "parseNumber None = None \<and>
   (parseFloat s = NaN \<longrightarrow> parseNumber (Some s) = parseNumber None) \<and>
   (parseNumber input = None \<or> (\<exists>v. parseNumber input = Some v \<and> v \<noteq> NaN)) \<and>
   ((cropSelect p = ''tur'' \<or> cropSelect p = ''maize'' \<and> managementSelect p \<noteq> None) \<and>
    (tmArea p = None \<or> tmRainfall p = None \<or> tmFert p = None) \<longrightarrow>
      (\<exists>msg. result_error (predict_switch p) = Some msg \<and>
         predict numToString p = Inr (showError msg p) \<and> resultInput (showError msg p) = [])) \<and>
   (cropSelect p = ''gram'' \<and>
    (gRainSep p = None \<or> gRainOct p = None \<or> gRainNov p = None \<or> gArea p = None \<or>
     gFert p = None) \<longrightarrow>
      (\<exists>msg. result_error (predict_switch p) = Some msg \<and>
         predict numToString p = Inr (showError msg p) \<and> resultInput (showError msg p) = [])) \<and>
   (cropSelect p = ''maize'' \<and> managementSelect p = None \<longrightarrow>
      predict numToString p = Inl TypeError) \<and>
   (\<not> (cropSelect p = ''maize'' \<and> managementSelect p = None) \<longrightarrow>
      (\<exists>q. predict numToString p = Inr q))"
proof (intro conjI impI)
  show "parseNumber None = None" by (rule parseNumber_None)
  show "parseNumber input = None \<or> (\<exists>v. parseNumber input = Some v \<and> v \<noteq> NaN)"
    by (simp add: parseNumber_def isNaN_def Let_def)
next
  assume "parseFloat s = NaN"
  then have "parseNumber (Some s) = None" by (simp add: parseNumber_def isNaN_def)
  then show "parseNumber (Some s) = parseNumber None" by (simp add: parseNumber_None)
next
  assume h: "(cropSelect p = ''tur'' \<or> cropSelect p = ''maize'' \<and> managementSelect p \<noteq> None) \<and>
    (tmArea p = None \<or> tmRainfall p = None \<or> tmFert p = None)"
  then have n: "not_positive (tmArea p) \<or> negative (tmRainfall p) \<or> negative (tmFert p)"
    by (auto simp: not_positive_def negative_def parseNumber_None)
  have "result_error (predict_switch p) \<noteq> None"
  proof (cases "cropSelect p = ''tur''")
    case True
    then have "predict_switch p = case_tur p" by (simp add: predict_switch_def)
    then show ?thesis using n by (auto simp: case_tur_error first_failure_def)
  next
    case False
    then obtain m where m: "cropSelect p = ''maize''" "managementSelect p = Some m"
      using h by auto
    then have "predict_switch p = case_maize p" by (simp add: predict_switch_def)
    then show ?thesis using n by (auto simp: case_maize_error [OF m(2)] first_failure_def)
  qed
  then obtain msg where e: "result_error (predict_switch p) = Some msg" by blast
  show "\<exists>msg. result_error (predict_switch p) = Some msg \<and>
      predict numToString p = Inr (showError msg p) \<and> resultInput (showError msg p) = []"
    using e predict_failure [OF e] by (auto simp: showError_def)
next
  assume h: "cropSelect p = ''gram'' \<and>
    (gRainSep p = None \<or> gRainOct p = None \<or> gRainNov p = None \<or> gArea p = None \<or>
     gFert p = None)"
  then have n: "negative (gRainSep p) \<or> negative (gRainOct p) \<or> negative (gRainNov p) \<or>
      not_positive (gArea p) \<or> negative (gFert p)"
    by (auto simp: not_positive_def negative_def parseNumber_None)
  have sw: "predict_switch p = case_gram p"
    using h by (auto simp: predict_switch_def)
  have "result_error (predict_switch p) \<noteq> None"
    using sw n by (auto simp: case_gram_error first_failure_def)
  then obtain msg where e: "result_error (predict_switch p) = Some msg" by blast
  show "\<exists>msg. result_error (predict_switch p) = Some msg \<and>
      predict numToString p = Inr (showError msg p) \<and> resultInput (showError msg p) = []"
    using e predict_failure [OF e] by (auto simp: showError_def)
next
  assume "cropSelect p = ''maize'' \<and> managementSelect p = None"
  then show "predict numToString p = Inl TypeError"
    by (simp add: predict_thrown switch_thrown)
next
  assume h: "\<not> (cropSelect p = ''maize'' \<and> managementSelect p = None)"
  show "\<exists>q. predict numToString p = Inr q"
  proof (cases "predict numToString p")
    case (Inl e)
    then show ?thesis using h by (simp add: predict_thrown switch_thrown)
  next
    case (Inr q)
    then show ?thesis by blast
  qed
qed

theorem parseNumber_total_witness:
  "parseFloat (utf16 ''abc'') = NaN \<and> parseNumber (Some (utf16 ''abc'')) = parseNumber None \<and>
   cropSelect tur_absent_page = ''tur'' \<and> tmFert tur_absent_page = None \<and>
   result_error (predict_switch tur_absent_page) = Some ''Enter fertilizers (kg) for Tur.'' \<and>
   cropSelect (gram_page\<lparr>gArea := None\<rparr>) = ''gram'' \<and> gArea (gram_page\<lparr>gArea := None\<rparr>) = None \<and>
   result_error (predict_switch (gram_page\<lparr>gArea := None\<rparr>)) =
     Some ''Enter a valid positive area for Gram.'' \<and>
   cropSelect maize_no_select_page = ''maize'' \<and> managementSelect maize_no_select_page = None \<and>
   (\<forall>numToString.
      predict numToString tur_absent_page =
        Inr (showError ''Enter fertilizers (kg) for Tur.'' tur_absent_page) \<and>
      predict numToString (gram_page\<lparr>gArea := None\<rparr>) =
        Inr (showError ''Enter a valid positive area for Gram.'' (gram_page\<lparr>gArea := None\<rparr>)) \<and>
      predict numToString maize_no_select_page = Inl TypeError \<and>
      (\<exists>q. predict numToString (maize_page\<lparr>tmArea := None\<rparr>) = Inr q))"
proof -
  have a: "parseFloat (utf16 ''abc'') = NaN"
    by (simp add: parseFloat_def fraction_part_def is_ws_def is_digit_def utf16_def)
  have t: "cropSelect tur_absent_page = ''tur'' \<and> tmFert tur_absent_page = None"
    by (simp add: tur_absent_page_def tur_page_def blank_page_def)
  have g: "cropSelect (gram_page\<lparr>gArea := None\<rparr>) = ''gram'' \<and> gArea (gram_page\<lparr>gArea := None\<rparr>) = None"
    by (simp add: gram_page_def blank_page_def)
  have m: "cropSelect maize_no_select_page = ''maize'' \<and> managementSelect maize_no_select_page = None"
    by (simp add: maize_no_select_page_def maize_page_def blank_page_def)
  have n: "\<not> (cropSelect (maize_page\<lparr>tmArea := None\<rparr>) = ''maize'' \<and>
      managementSelect (maize_page\<lparr>tmArea := None\<rparr>) = None)"
    by (simp add: maize_page_def blank_page_def)
  have te: "result_error (predict_switch tur_absent_page) = Some ''Enter fertilizers (kg) for Tur.''"
  proof -
    have "predict_switch tur_absent_page = case_tur tur_absent_page"
      using t by (simp add: predict_switch_def)
    then show ?thesis
      by (simp add: case_tur_error first_failure_def not_positive_def negative_def
          tur_absent_page_def tur_page_def blank_page_def parseNumber_0 parseNumber_1
          parseNumber_None lit_0)
  qed
  have ge: "result_error (predict_switch (gram_page\<lparr>gArea := None\<rparr>)) =
      Some ''Enter a valid positive area for Gram.''"
  proof -
    have "predict_switch (gram_page\<lparr>gArea := None\<rparr>) = case_gram (gram_page\<lparr>gArea := None\<rparr>)"
      using g by (simp add: predict_switch_def)
    then show ?thesis
      by (simp add: case_gram_error first_failure_def not_positive_def negative_def
          gram_page_def blank_page_def parseNumber_0 parseNumber_1 parseNumber_None lit_0)
  qed
  show ?thesis
    using parseNumber_total [where s = "utf16 ''abc''" and p = tur_absent_page] a t te
      parseNumber_total [where p = "gram_page\<lparr>gArea := None\<rparr>"] g ge
      parseNumber_total [where p = maize_no_select_page] m
      parseNumber_total [where p = "maize_page\<lparr>tmArea := None\<rparr>"] n
    by simp
qed

text \<open>
  Claim C10 as stated fails: the management select is an input field of Maize, and on a
  Maize page without it \<open>predict\<close> throws, whatever the numeric fields hold.
\<close>

theorem absent_management_counterexample:
  "cropSelect maize_no_select_page = ''maize'' \<and>
   managementSelect maize_no_select_page = None \<and>
   predict_switch maize_no_select_page = Inl (Thrown TypeError) \<and>
   predict no_text maize_no_select_page = Inl TypeError"
proof -
  have m: "cropSelect maize_no_select_page = ''maize'' \<and> managementSelect maize_no_select_page = None"
    by (simp add: maize_no_select_page_def maize_page_def blank_page_def)
  then show ?thesis by (simp add: predict_thrown switch_thrown)
qed

section \<open>The management factor\<close>

lemma lit_three_quarters: "lit (3 / 4) = Fin (3 / 4)"
  using lit_075 by simp

lemma clamp_three_quarters:
  assumes "is_double y"
  shows "clamp (fmul (lit 0.75) y) = fmul (lit 0.75) (clamp y)"
proof (cases y)
  case (Fin q)
  have d: "rnd q = Fin q" using assms Fin by (simp add: is_double_def)
  consider "q = 0" | "0 < q" | "q < 0" by linarith
  then show ?thesis
  proof cases
    case 1
    then show ?thesis
      using Fin by (simp add: clamp_def lit_three_quarters lit_0 fmul_def is_inf_def is_zero_def signed_zero_def)
  next
    case 2
    then have "\<not> flt (rnd (3 / 4 * q)) (Fin 0)" by (intro rnd_nonneg) simp
    then show ?thesis
      using Fin 2 by (simp add: clamp_def lit_three_quarters lit_0 fmul_def is_inf_def is_zero_def)
  next
    case 3
    have "2 powi (- 1074) \<le> \<bar>q\<bar>" using d 3 by (intro double_min) auto
    moreover have "(2::rat) powi (- 1075) = 2 powi (- 1074) / 2"
      by (simp add: power_int_minus field_simps)
    ultimately have "2 powi (- 1075) < \<bar>3 / 4 * q\<bar>" using 3 by (simp add: abs_mult) 
    then have "flt (rnd (3 / 4 * q)) (Fin 0)" using 3 by (intro rnd_neg_nonzero) auto
    then show ?thesis
      using Fin 3
      by (simp add: clamp_def lit_three_quarters lit_0 fmul_def is_inf_def is_zero_def signed_zero_def)
  qed
qed (simp_all add: clamp_def lit_three_quarters lit_0 fmul_def is_inf_def is_zero_def signed_zero_def
      signed_inf_def)

lemma is_double_maize_base: "is_double (spec_maize_base a r f)"
  unfolding spec_maize_base_eq by (rule is_double_fadd)

lemma spec_maize_good: "spec_maize a r f ''good'' = spec_maize_base a r f"
  unfolding spec_maize_def managementFactor_def
  using fmul_one [OF is_double_maize_base] by simp

lemma spec_maize_poor: "spec_maize a r f ''poor'' = fmul (lit 0.75) (spec_maize_base a r f)"
  unfolding spec_maize_def managementFactor_def
  using fmul_commute [of "spec_maize_base a r f" "lit 0.75"] by simp

text \<open>
  Claim C4. The identifiers of the two management qualities are \<^verbatim>\<open>good\<close> and \<^verbatim>\<open>poor\<close>. When
  a Maize page passes the validation with \<^verbatim>\<open>good\<close>, the same page with \<^verbatim>\<open>poor\<close> passes it too
  and its yield is the Number product of 0.75 and the yield for \<^verbatim>\<open>good\<close>; the same relation
  holds between the two clamped values, which are the ones handed to the rounding.
\<close>

theorem poor_is_three_quarters_of_good:
  assumes "cropSelect p = ''maize''"
    and "predict_switch (p\<lparr>managementSelect := Some ''good''\<rparr>) = Inr (yg, lg)"
  shows "predict_switch (p\<lparr>managementSelect := Some ''poor''\<rparr>) =
           Inr (fmul (lit 0.75) yg, '' (Maize, Poor management)'') \<and>
         clamp (fmul (lit 0.75) yg) = fmul (lit 0.75) (clamp yg)"
proof -
  from assms obtain a r f where
    v: "parseNumber (tmArea p) = Some a" "\<not> fle a (lit 0)"
       "parseNumber (tmRainfall p) = Some r" "\<not> flt r (lit 0)"
       "parseNumber (tmFert p) = Some f" "\<not> flt f (lit 0)"
    and yg: "yg = spec_maize a r f ''good''"
    by (auto simp: switch_Inr case_maize_Inr)
  have "predict_switch (p\<lparr>managementSelect := Some ''poor''\<rparr>) =
      Inr (spec_maize a r f ''poor'', '' (Maize, Poor management)'')"
    using assms(1) v by (simp add: switch_Inr case_maize_Inr)
  then have "predict_switch (p\<lparr>managementSelect := Some ''poor''\<rparr>) =
      Inr (fmul (lit 0.75) yg, '' (Maize, Poor management)'')"
    by (simp only: yg spec_maize_good spec_maize_poor)
  moreover have "is_double yg" unfolding yg spec_maize_good by (rule is_double_maize_base)
  then have "clamp (fmul (lit 0.75) yg) = fmul (lit 0.75) (clamp yg)"
    by (rule clamp_three_quarters)
  ultimately show ?thesis by simp
qed

theorem poor_is_three_quarters_of_good_witness:
  "cropSelect maize_page = ''maize'' \<and>
   predict_switch (maize_page\<lparr>managementSelect := Some ''good''\<rparr>) =
     Inr (spec_maize (Fin 1) (Fin 0) (Fin 0) ''good'', '' (Maize, Good management)'') \<and>
   predict_switch (maize_page\<lparr>managementSelect := Some ''poor''\<rparr>) =
     Inr (fmul (lit 0.75) (spec_maize (Fin 1) (Fin 0) (Fin 0) ''good''),
          '' (Maize, Poor management)'') \<and>
   clamp (fmul (lit 0.75) (spec_maize (Fin 1) (Fin 0) (Fin 0) ''good'')) =
     fmul (lit 0.75) (clamp (spec_maize (Fin 1) (Fin 0) (Fin 0) ''good''))"
proof -
  have c: "cropSelect maize_page = ''maize''" by (simp add: maize_page_def)
  have m: "maize_page\<lparr>managementSelect := Some ''good''\<rparr> = maize_page" by (simp add: maize_page_def)
  have g: "predict_switch (maize_page\<lparr>managementSelect := Some ''good''\<rparr>) =
     Inr (spec_maize (Fin 1) (Fin 0) (Fin 0) ''good'', '' (Maize, Good management)'')"
    unfolding m by (rule maize_page_switch)
  show ?thesis using poor_is_three_quarters_of_good [OF c g] c g by simp
qed

section \<open>The clamp and the rounding\<close>

lemma powi2_le_imp: "(2::rat) powi m \<le> 2 powi n \<Longrightarrow> m \<le> n"
proof (rule ccontr)
  assume a: "(2::rat) powi m \<le> 2 powi n" and "\<not> m \<le> n"
  then have "n < m" by simp
  then have "(2::rat) powi n < 2 powi m" by (intro power_int_strict_increasing) auto
  then show False using a by simp
qed

lemma rnd_moderate:
  assumes lo: "1 / 2 ^ 20 \<le> q" and hi: "q \<le> 2 ^ 20"
  shows "\<exists>v. q / 2 \<le> v \<and> v \<le> 2 * q \<and> rnd q = Fin v"
proof -
  have "0 < 1 / (2::rat) ^ 20" by simp
  then have pos: "0 < q" using lo by (rule less_le_trans)
  define e where "e = ilog2 q"
  have b: "2 powi e \<le> q" "q < 2 powi (e + 1)" using ilog2_bounds [OF pos] by (auto simp: e_def)
  have "(2::rat) powi e \<le> 2 ^ 20" using b(1) hi by (rule order_trans)
  also have "\<dots> = 2 powi 20" by simp
  finally have e_hi: "e \<le> 20" by (rule powi2_le_imp)
  have "(2::rat) powi (- 20) = 1 / 2 ^ 20" by (simp add: power_int_minus field_simps)
  then have "(2::rat) powi (- 20) \<le> q" using lo by (simp only:)
  then have "(2::rat) powi (- 20) < 2 powi (e + 1)" using b(2) by (rule le_less_trans)
  then have e_lo: "- 20 < e + 1" by (rule powi2_less_imp)
  define n where "n = round_half_even (q / 2 powi (e - 52))"
  have r: "rnd q = Fin (of_int n * 2 powi (e - 52))"
    unfolding n_def using b e_lo e_hi by (intro rnd_normal) auto
  have "(2::rat) ^ 52 = 2 powi e / 2 powi (e - 52)" by (simp add: power_int_diff)
  also have "\<dots> \<le> q / 2 powi (e - 52)" using b(1) by (simp add: divide_right_mono)
  finally have "of_int (2 ^ 52) \<le> q / 2 powi (e - 52)" by simp
  then have n_lo: "2 ^ 52 \<le> n" unfolding n_def by (rule rhe_lower)
  have "q / 2 powi (e - 52) \<le> 2 powi (e + 1) / 2 powi (e - 52)"
    using b(2) by (simp add: divide_right_mono)
  also have "\<dots> = 2 powi ((e + 1) - (e - 52))" by (rule power_int_diff [symmetric]) simp
  also have "\<dots> = 2 ^ 53" by simp
  finally have "q / 2 powi (e - 52) \<le> of_int (2 ^ 53)" by simp
  then have n_hi: "n \<le> 2 ^ 53" unfolding n_def by (rule rhe_upper)
  have e1: "int 53 + (e - 52) = e + 1" by simp
  have e0: "int 52 + (e - 52) = e" by simp
  have "rat_of_int n \<le> of_int (2 ^ 53)" using n_hi by (simp only: of_int_le_iff)
  then have "of_int n * 2 powi (e - 52) \<le> 2 ^ 53 * (2::rat) powi (e - 52)" by simp
  also have "\<dots> = 2 powi (e + 1)" using powi2_split [of 53 "e - 52"] by (simp only: e1)
  also have "\<dots> = 2 * 2 powi e" by (simp add: power_int_add)
  also have "\<dots> \<le> 2 * q" using b(1) by (intro mult_left_mono) auto
  finally have up: "of_int n * 2 powi (e - 52) \<le> 2 * q" .
  have "q / 2 \<le> 2 powi (e + 1) / 2" using b(2) by (intro divide_right_mono) auto
  also have "\<dots> = 2 powi e" by (simp add: power_int_add)
  also have "\<dots> = 2 ^ 52 * (2::rat) powi (e - 52)" using powi2_split [of 52 "e - 52"] by (simp only: e0)
  also have "\<dots> \<le> of_int n * 2 powi (e - 52)"
  proof -
    have "rat_of_int (2 ^ 52) \<le> of_int n" using n_lo by (simp only: of_int_le_iff)
    then show ?thesis by simp
  qed
  finally have dn: "q / 2 \<le> of_int n * 2 powi (e - 52)" .
  show ?thesis using r up dn by blast
qed

lemma rnd_self: "rnd q = Fin v \<Longrightarrow> fmul (Fin v) (Fin 1) = Fin v"
  by (auto simp: fmul_def is_inf_def is_zero_def signed_zero_def dest: rnd_idem)

lemma gram_infinity_yield: "spec_gram (Fin 1) PInf PInf (Fin 0) (Fin 0) = NaN"
proof -
  obtain c0 where c0: "57.91029391 / 2 \<le> c0" "c0 \<le> 2 * 57.91029391" "lit 57.91029391 = Fin c0"
    using rnd_moderate [of "57.91029391"] unfolding lit_def by auto
  obtain c1 where c1: "9.450850118 / 2 \<le> c1" "c1 \<le> 2 * 9.450850118" "lit 9.450850118 = Fin c1"
    using rnd_moderate [of "9.450850118"] unfolding lit_def by auto
  obtain c2 where c2: "0.577080551 / 2 \<le> c2" "lit 0.577080551 = Fin c2"
    using rnd_moderate [of "0.577080551"] unfolding lit_def by auto
  obtain c3 where c3: "0.069920447 / 2 \<le> c3" "lit 0.069920447 = Fin c3"
    using rnd_moderate [of "0.069920447"] unfolding lit_def by auto
  have m1: "fmul (Fin c1) (Fin 1) = Fin c1" using c1(3) unfolding lit_def by (rule rnd_self)
  obtain s where s: "rnd (c0 + c1) = Fin s"
    using rnd_moderate [of "c0 + c1"] c0 c1 by auto
  have a1: "fadd (Fin c0) (Fin c1) = Fin s"
    using c0 c1 s by (simp add: fadd_def is_inf_def Let_def)
  have m2: "fmul (fneg (Fin c2)) PInf = NInf"
    using c2 by (simp add: fmul_def is_inf_def is_zero_def signed_inf_def)
  have m3: "fmul (Fin c3) PInf = PInf"
    using c3 by (simp add: fmul_def is_inf_def is_zero_def signed_inf_def)
  have "spec_gram (Fin 1) PInf PInf (Fin 0) (Fin 0) =
    fadd (fadd (fadd (fadd (fadd (Fin c0) (fmul (Fin c1) (Fin 1)))
                            (fmul (fneg (Fin c2)) PInf))
                      (fmul (Fin c3) PInf))
                (fmul (lit 0.278021178) (Fin 0)))
          (fmul (fneg (lit 0.006839212)) (Fin 0))"
    unfolding spec_gram_eq c0(3) c1(3) c2(2) c3(2) ..
  also have "\<dots> = NaN"
    unfolding m1 a1 m2 m3 by (simp add: fadd_def is_inf_def)
  finally show ?thesis .
qed

lemma gram_infinity_switch:
  "predict_switch gram_infinity_page = Inr (NaN, '' (Gram)'')"
proof -
  have "predict_switch gram_infinity_page =
      Inr (spec_gram (Fin 1) PInf PInf (Fin 0) (Fin 0), '' (Gram)'')"
    by (simp add: switch_Inr case_gram_Inr gram_infinity_page_def gram_page_def blank_page_def
        parseNumber_0 parseNumber_1 parseNumber_Infinity lit_0)
  then show ?thesis by (simp only: gram_infinity_yield)
qed

lemma fmul_100_cases:
  assumes "0 \<le> q"
  shows "fmul (Fin q) (Fin 100) = PInf \<or> (\<exists>h. 0 \<le> h \<and> fmul (Fin q) (Fin 100) = Fin h)"
proof (cases "q = 0")
  case True
  then show ?thesis by (simp add: fmul_def is_inf_def is_zero_def signed_zero_def)
next
  case False
  have "0 \<le> q * 100" using assms by simp
  from rnd_nonneg_cases [OF this] show ?thesis
    using False by (simp add: fmul_def is_inf_def is_zero_def)
qed

lemma shown_value_nonneg: "\<not> flt (shown_value y) (Fin 0)"
proof (cases y)
  case (Fin q)
  show ?thesis
  proof (cases "q < 0")
    case True
    then show ?thesis using Fin by (simp add: shown_value_def)
  next
    case False
    then have "0 \<le> q" by simp
    from fmul_100_cases [OF this] show ?thesis
    proof
      assume "fmul (Fin q) (Fin 100) = PInf"
      then show ?thesis using Fin False by (simp add: shown_value_def)
    next
      assume "\<exists>h. 0 \<le> h \<and> fmul (Fin q) (Fin 100) = Fin h"
      then obtain h where h: "0 \<le> h" "fmul (Fin q) (Fin 100) = Fin h" by blast
      have "0 \<le> \<lfloor>h + 1 / 2\<rfloor>" using h(1) by (simp add: le_floor_iff)
      then have "(0::rat) \<le> of_int \<lfloor>h + 1 / 2\<rfloor> / 100" by simp
      then have "\<not> flt (rnd (of_int \<lfloor>h + 1 / 2\<rfloor> / 100)) (Fin 0)" by (rule rnd_nonneg)
      then show ?thesis using Fin False h(2) by (simp add: shown_value_def)
    qed
  qed
qed (simp_all add: shown_value_def)

lemma shown_value_NaN: "shown_value y = NaN \<longleftrightarrow> y = NaN"
proof (cases y)
  case (Fin q)
  show ?thesis
  proof (cases "q < 0")
    case True
    then show ?thesis using Fin by (simp add: shown_value_def)
  next
    case False
    then have "0 \<le> q" by simp
    from fmul_100_cases [OF this] show ?thesis
      using Fin False by (auto simp: shown_value_def rnd_not_NaN)
  qed
qed (simp_all add: shown_value_def)

lemma shown_value_below: "flt y (Fin 0) \<Longrightarrow> shown_value y = Fin 0"
  by (cases y) (simp_all add: shown_value_def)

lemma shown_value_shape:
  assumes "\<not> flt y (Fin 0)"
  shows "(\<forall>h. fmul y (Fin 100) = Fin h \<longrightarrow>
            shown_value y = rnd (of_int \<lfloor>h + 1 / 2\<rfloor> / 100)) \<and>
         ((\<forall>h. fmul y (Fin 100) \<noteq> Fin h) \<longrightarrow> shown_value y = fmul y (Fin 100))"
proof (cases y)
  case (Fin q)
  then have "\<not> q < 0" using assms by simp
  then show ?thesis using Fin by (auto simp: shown_value_def split: jsnum.splits)
qed (use assms in \<open>simp_all add: shown_value_def fmul_def is_inf_def is_zero_def signed_zero_def
      signed_inf_def\<close>)

section \<open>A yield below zero\<close>

text \<open>
  Maize with area 1, rainfall 0, fertilizer 0 and Good management: the regression value is
  the Number written -10.77871284 and the value shown is 0.
\<close>

lemma maize_intercept: "lit 23.81399768 = Fin (418940277647851 / 2 ^ 44)"
  unfolding lit_def by (subst rnd_normal [of 4]) (simp_all add: rhe_numeral_frac rhe_numeral Let_def)

lemma maize_coeff_rain: "lit 0.039441256 = Fin (5684084026387979 / 2 ^ 57)"
  unfolding lit_def by (subst rnd_normal [of "- 5"]) (simp_all add: rhe_numeral_frac rhe_numeral Let_def)

lemma maize_coeff_area: "lit 13.03528484 = Fin (3669106496755767 / 2 ^ 48)"
  unfolding lit_def by (subst rnd_normal [of 3]) (simp_all add: rhe_numeral_frac rhe_numeral Let_def)

lemma maize_coeff_fert: "lit 0.031329566 = Fin (1128766574106235 / 2 ^ 55)"
  unfolding lit_def by (subst rnd_normal [of "- 5"]) (simp_all add: rhe_numeral_frac rhe_numeral Let_def)

lemma below_rain_term:
  "fmul (Fin (5684084026387979 / 2 ^ 57)) (Fin 0) =
     Fin 0"
  by (simp add: fmul_def is_inf_def is_zero_def signed_zero_def signed_inf_def)

lemma below_sum1:
  "fadd (fneg (Fin (418940277647851 / 2 ^ 44))) (Fin 0) =
     Fin (- (418940277647851 / 2 ^ 44))"
  apply (simp add: fadd_def is_inf_def Let_def)
  by (subst rnd_normal_neg [of 4]) (simp_all add: rhe_numeral_frac rhe_numeral Let_def)

lemma below_area_term:
  "fmul (Fin (3669106496755767 / 2 ^ 48)) (Fin 1) =
     Fin (3669106496755767 / 2 ^ 48)"
  apply (simp add: fmul_def is_inf_def is_zero_def signed_zero_def signed_inf_def)
  by (subst rnd_normal [of 3]) (simp_all add: rhe_numeral_frac rhe_numeral Let_def)

lemma below_sum2:
  "fadd (Fin (- (418940277647851 / 2 ^ 44))) (Fin (3669106496755767 / 2 ^ 48)) =
     Fin (- (3033937945609849 / 2 ^ 48))"
  apply (simp add: fadd_def is_inf_def Let_def)
  by (subst rnd_normal_neg [of 3]) (simp_all add: rhe_numeral_frac rhe_numeral Let_def)

lemma below_fert_term:
  "fmul (Fin (1128766574106235 / 2 ^ 55)) (Fin 0) =
     Fin 0"
  by (simp add: fmul_def is_inf_def is_zero_def signed_zero_def signed_inf_def)

lemma below_sum3:
  "fadd (Fin (- (3033937945609849 / 2 ^ 48))) (Fin 0) =
     Fin (- (3033937945609849 / 2 ^ 48))"
  apply (simp add: fadd_def is_inf_def Let_def)
  by (subst rnd_normal_neg [of 3]) (simp_all add: rhe_numeral_frac rhe_numeral Let_def)

lemma below_base:
  "spec_maize_base (Fin 1) (Fin 0) (Fin 0) =
     Fin (- (3033937945609849 / 2 ^ 48))"
  unfolding spec_maize_base_eq maize_intercept maize_coeff_rain maize_coeff_area maize_coeff_fert
    below_rain_term below_sum1 below_area_term below_sum2 below_fert_term below_sum3
  by (rule refl)

lemma below_yield:
  "spec_maize (Fin 1) (Fin 0) (Fin 0) ''good'' =
     Fin (- (3033937945609849 / 2 ^ 48))"
  unfolding spec_maize_good below_base by (rule refl)

lemma below_switch:
  "predict_switch maize_page =
     Inr (Fin (- (3033937945609849 / 2 ^ 48)), '' (Maize, Good management)'')"
  using maize_page_switch by (simp only: below_yield)

lemma below_negative:
  "flt (Fin (- (3033937945609849 / 2 ^ 48))) (lit 0)"
  by (simp add: lit_0)

section \<open>Inputs on which the stated clamp and rounding fail\<close>

text \<open>
  Tur with area 1, rainfall 0 and fertilizer 1.4365156537659054: the regression value is the
  Number written 1.115, whose exact value lies below 1.115. Its nearest hundredth is 1.11,
  its Number product with 100 is 111.5, and the result is the Number nearest to 1.12.
\<close>

lemma tie_fert_text: "lit 1.4365156537659054 = Fin (404343210188251 / 2 ^ 48)"
  unfolding lit_def by (subst rnd_normal [of 0]) (simp_all add: rhe_numeral_frac rhe_numeral Let_def)

lemma parseNumber_tie:
  "parseNumber (Some (utf16 ''1.4365156537659054'')) =
     Some (Fin (404343210188251 / 2 ^ 48))"
  using tie_fert_text [unfolded lit_def]
  by (simp add: parseNumber_def parseFloat_def fraction_part_def isNaN_def is_ws_def is_digit_def
      digits_val_def digit_val_def exponent_part_def signed_zero_def utf16_def)

lemma tie_rain_term:
  "fmul (Fin (5294674277729345 / 2 ^ 60)) (Fin 0) =
     Fin 0"
  by (simp add: fmul_def is_inf_def is_zero_def signed_zero_def signed_inf_def)

lemma tie_sum1:
  "fadd (fneg (Fin (7494977211425757 / 2 ^ 51))) (Fin 0) =
     Fin (- (7494977211425757 / 2 ^ 51))"
  apply (simp add: fadd_def is_inf_def Let_def)
  by (subst rnd_normal_neg [of 1]) (simp_all add: rhe_numeral_frac rhe_numeral Let_def)

lemma tie_area_term:
  "fmul (Fin (4879312924058505 / 2 ^ 50)) (Fin 1) =
     Fin (4879312924058505 / 2 ^ 50)"
  apply (simp add: fmul_def is_inf_def is_zero_def signed_zero_def signed_inf_def)
  by (subst rnd_normal [of 2]) (simp_all add: rhe_numeral_frac rhe_numeral Let_def)

lemma tie_sum2:
  "fadd (Fin (- (7494977211425757 / 2 ^ 51))) (Fin (4879312924058505 / 2 ^ 50)) =
     Fin (2263648636691253 / 2 ^ 51)"
  apply (simp add: fadd_def is_inf_def Let_def)
  by (subst rnd_normal [of 0]) (simp_all add: rhe_numeral_frac rhe_numeral Let_def)

lemma tie_fert_term:
  "fmul (Fin (5504611771852049 / 2 ^ 56)) (Fin (404343210188251 / 2 ^ 48)) =
     Fin (7907460978169545 / 2 ^ 56)"
  apply (simp add: fmul_def is_inf_def is_zero_def signed_zero_def signed_inf_def)
  by (subst rnd_normal [of "- 4"]) (simp_all add: rhe_numeral_frac rhe_numeral Let_def)

lemma tie_sum3:
  "fadd (Fin (2263648636691253 / 2 ^ 51)) (Fin (7907460978169545 / 2 ^ 56)) =
     Fin (5021513584518103 / 2 ^ 52)"
  apply (simp add: fadd_def is_inf_def Let_def)
  by (subst rnd_normal [of 0]) (simp_all add: rhe_numeral_frac rhe_numeral Let_def)

lemma tie_yield:
  "spec_tur (Fin 1) (Fin 0) (Fin (404343210188251 / 2 ^ 48)) =
     Fin (5021513584518103 / 2 ^ 52)"
  unfolding spec_tur_eq tur_intercept tur_coeff_rain tur_coeff_area tur_coeff_fert
    tie_rain_term tie_sum1 tie_area_term tie_sum2 tie_fert_term tie_sum3
  by (rule refl)

lemma tie_clamp:
  "clamp (Fin (5021513584518103 / 2 ^ 52)) =
     Fin (5021513584518103 / 2 ^ 52)"
  by (simp add: clamp_def lit_0)

lemma tie_times_100:
  "fmul (Fin (5021513584518103 / 2 ^ 52)) (Fin 100) =
     Fin (223 / 2)"
  apply (simp add: fmul_def is_inf_def is_zero_def signed_zero_def signed_inf_def)
  by (subst rnd_normal [of 6]) (simp_all add: rhe_numeral_frac rhe_numeral Let_def)

lemma tie_round:
  "math_round (Fin (223 / 2)) =
     Fin 112"
  by (simp add: floor_numeral_frac signed_zero_def)

lemma tie_hundredths:
  "fdiv (Fin 112) (Fin 100) =
     Fin (1261007895663739 / 2 ^ 50)"
  apply (simp add: fdiv_def is_inf_def is_zero_def signed_zero_def signed_inf_def)
  by (subst rnd_normal [of 0]) (simp_all add: rhe_numeral_frac rhe_numeral Let_def)

lemma tie_value:
  "round2 (clamp (Fin (5021513584518103 / 2 ^ 52))) =
     Fin (1261007895663739 / 2 ^ 50)"
  unfolding round2_def tie_clamp lit_100 tie_times_100 tie_round tie_hundredths
  by (rule refl)

lemma tie_switch:
  "predict_switch tur_tie_page =
     Inr (Fin (5021513584518103 / 2 ^ 52), '' (Tur)'')"
proof -
  have "predict_switch tur_tie_page =
      Inr (spec_tur (Fin 1) (Fin 0) (Fin (404343210188251 / 2 ^ 48)), '' (Tur)'')"
    by (simp add: switch_Inr case_tur_Inr tur_tie_page_def blank_page_def lit_0
        parseNumber_1 parseNumber_0 parseNumber_tie)
  then show ?thesis by (simp only: tie_yield)
qed

lemma tie_nearest:
  "nearest_hundredth (5021513584518103 / 2 ^ 52) = 111 / 100"
  by (simp add: nearest_hundredth_def floor_numeral_frac)

lemma tie_nearest_double:
  "rnd (111 / 100) =
     Fin (4998995586381251 / 2 ^ 52)"
  by (subst rnd_normal [of 0]) (simp_all add: rhe_numeral_frac rhe_numeral Let_def)

text \<open>
  Tur with area 8e307, rainfall 0 and fertilizer 0: all fields are finite, the product of
  the area and its coefficient overflows, and the result is \<open>+\<infinity>\<close>.
\<close>

lemma overflow_area_text:
  "lit (8 * 10 ^ 307) =
     Fin (8016673440035891 * 2 ^ 970)"
  unfolding lit_def by (subst rnd_normal [of 1022]) (simp_all add: rhe_numeral_frac rhe_numeral Let_def)

lemma parseNumber_8e307:
  "parseNumber (Some (utf16 ''8e307'')) =
     Some (Fin (8016673440035891 * 2 ^ 970))"
  using overflow_area_text [unfolded lit_def]
  by (simp add: parseNumber_def parseFloat_def fraction_part_def isNaN_def is_ws_def is_digit_def
      digits_val_def digit_val_def exponent_part_def signed_zero_def utf16_def)

lemma overflow_rain_term:
  "fmul (Fin (5294674277729345 / 2 ^ 60)) (Fin 0) =
     Fin 0"
  by (simp add: fmul_def is_inf_def is_zero_def signed_zero_def signed_inf_def)

lemma overflow_sum1:
  "fadd (fneg (Fin (7494977211425757 / 2 ^ 51))) (Fin 0) =
     Fin (- (7494977211425757 / 2 ^ 51))"
  apply (simp add: fadd_def is_inf_def Let_def)
  by (subst rnd_normal_neg [of 1]) (simp_all add: rhe_numeral_frac rhe_numeral Let_def)

lemma overflow_area_term:
  "fmul (Fin (4879312924058505 / 2 ^ 50)) (Fin (8016673440035891 * 2 ^ 970)) =
     PInf"
  apply (simp add: fmul_def is_inf_def is_zero_def signed_zero_def signed_inf_def)
  by (rule rnd_overflow) simp

lemma overflow_sum2:
  "fadd (Fin (- (7494977211425757 / 2 ^ 51))) PInf =
     PInf"
  by (simp add: fadd_def is_inf_def Let_def)

lemma overflow_fert_term:
  "fmul (Fin (5504611771852049 / 2 ^ 56)) (Fin 0) =
     Fin 0"
  by (simp add: fmul_def is_inf_def is_zero_def signed_zero_def signed_inf_def)

lemma overflow_sum3:
  "fadd PInf (Fin 0) =
     PInf"
  by (simp add: fadd_def is_inf_def Let_def)

lemma overflow_yield:
  "spec_tur (Fin (8016673440035891 * 2 ^ 970)) (Fin 0) (Fin 0) =
     PInf"
  unfolding spec_tur_eq tur_intercept tur_coeff_rain tur_coeff_area tur_coeff_fert
    overflow_rain_term overflow_sum1 overflow_area_term overflow_sum2 overflow_fert_term overflow_sum3
  by (rule refl)

lemma overflow_clamp:
  "clamp PInf =
     PInf"
  by (simp add: clamp_def lit_0)

lemma overflow_value:
  "round2 (clamp PInf) =
     PInf"
  by (simp add: round2_def clamp_def lit_0 lit_100 fmul_def fdiv_def is_inf_def is_zero_def
      signed_inf_def)

lemma overflow_switch:
  "predict_switch tur_overflow_page =
     Inr (PInf, '' (Tur)'')"
proof -
  have "predict_switch tur_overflow_page =
      Inr (spec_tur (Fin (8016673440035891 * 2 ^ 970)) (Fin 0) (Fin 0), '' (Tur)'')"
    by (simp add: switch_Inr case_tur_Inr tur_overflow_page_def blank_page_def lit_0
        parseNumber_8e307 parseNumber_0)
  then show ?thesis by (simp only: overflow_yield)
qed

section \<open>The value put in the result field\<close>

text \<open>
  Claim C5, amended. Whenever the validation passes, the value put in the result field is
  never below zero. A regression value below zero is replaced by 0 before the rounding and
  gives 0; every other regression value passes the clamp unchanged. The rounding is
  \<^verbatim>\<open>Math.round(y * 100) / 100\<close> in Number arithmetic: with \<open>h\<close> the Number product of the
  regression value and 100, the result is the Number nearest to \<open>k / 100\<close>, where the integer
  \<open>k\<close> is \<open>h\<close> rounded to the nearest integer, a half going up, and it is \<open>h\<close> itself when \<open>h\<close> is
  \<open>+\<infinity>\<close>, \<open>NaN\<close> or a negative zero. The result is \<open>NaN\<close> exactly when the regression value is.
\<close>

theorem final_value_clamped_and_rounded:
  assumes "predict_switch p = Inr (y, l)"
  shows "(\<exists>q. predict numToString p = Inr q \<and>
            resultInput q = numToString (round2 (clamp y)) @ '' quintals (approx.)'' @ l) \<and>
         \<not> flt (round2 (clamp y)) (lit 0) \<and>
         (flt y (lit 0) \<longrightarrow> clamp y = lit 0 \<and> round2 (clamp y) = lit 0) \<and>
         (\<not> flt y (lit 0) \<longrightarrow> clamp y = y) \<and>
         (round2 (clamp y) = NaN \<longleftrightarrow> y = NaN) \<and>
         (\<not> flt y (lit 0) \<longrightarrow>
            (\<forall>h. fmul y (lit 100) = Fin h \<longrightarrow>
               (\<exists>k. of_int k - 1 / 2 \<le> h \<and> h < of_int k + 1 / 2 \<and>
                    round2 (clamp y) = rnd (of_int k / 100))) \<and>
            ((\<forall>h. fmul y (lit 100) \<noteq> Fin h) \<longrightarrow> round2 (clamp y) = fmul y (lit 100)))"
proof (intro conjI impI allI)
  show "\<exists>q. predict numToString p = Inr q \<and>
      resultInput q = numToString (round2 (clamp y)) @ '' quintals (approx.)'' @ l"
    using predict_success [OF assms] by simp
  show "\<not> flt (round2 (clamp y)) (lit 0)"
    unfolding round2_clamp lit_0 by (rule shown_value_nonneg)
  show "(round2 (clamp y) = NaN) = (y = NaN)"
    unfolding round2_clamp by (rule shown_value_NaN)
next
  assume "flt y (lit 0)"
  then show "clamp y = lit 0" by (simp add: clamp_def)
next
  assume "flt y (lit 0)"
  then show "round2 (clamp y) = lit 0"
    unfolding round2_clamp lit_0 by (rule shown_value_below)
next
  assume "\<not> flt y (lit 0)"
  then show "clamp y = y" by (simp add: clamp_def)
next
  fix h
  assume n: "\<not> flt y (lit 0)" and h: "fmul y (lit 100) = Fin h"
  have "shown_value y = rnd (of_int \<lfloor>h + 1 / 2\<rfloor> / 100)"
    using shown_value_shape [of y] n h by (simp add: lit_0 lit_100)
  moreover have "of_int \<lfloor>h + 1 / 2\<rfloor> - 1 / 2 \<le> h" "h < of_int \<lfloor>h + 1 / 2\<rfloor> + 1 / 2"
    by linarith+
  ultimately show "\<exists>k. of_int k - 1 / 2 \<le> h \<and> h < of_int k + 1 / 2 \<and>
      round2 (clamp y) = rnd (of_int k / 100)"
    unfolding round2_clamp by blast
next
  assume n: "\<not> flt y (lit 0)" and h: "\<forall>h. fmul y (lit 100) \<noteq> Fin h"
  show "round2 (clamp y) = fmul y (lit 100)"
    unfolding round2_clamp using shown_value_shape [of y] n h by (simp add: lit_0 lit_100)
qed

theorem final_value_clamped_and_rounded_witness:
  "predict_switch maize_page =
     Inr (Fin (- (3033937945609849 / 2 ^ 48)), '' (Maize, Good management)'') \<and>
   flt (Fin (- (3033937945609849 / 2 ^ 48))) (lit 0) \<and>
   clamp (Fin (- (3033937945609849 / 2 ^ 48))) = lit 0 \<and>
   round2 (clamp (Fin (- (3033937945609849 / 2 ^ 48)))) = lit 0 \<and>
   predict_switch tur_example_page = Inr (Fin (2004398109944393 / 2 ^ 48), '' (Tur)'') \<and>
   \<not> flt (Fin (2004398109944393 / 2 ^ 48)) (lit 0) \<and>
   clamp (Fin (2004398109944393 / 2 ^ 48)) = Fin (2004398109944393 / 2 ^ 48) \<and>
   fmul (Fin (2004398109944393 / 2 ^ 48)) (lit 100) = Fin (1565936023394057 / 2 ^ 41) \<and>
   (\<exists>k. of_int k - 1 / 2 \<le> (1565936023394057 / 2 ^ 41 :: rat) \<and>
        (1565936023394057 / 2 ^ 41 :: rat) < of_int k + 1 / 2 \<and>
        round2 (clamp (Fin (2004398109944393 / 2 ^ 48))) = rnd (of_int k / 100)) \<and>
   round2 (clamp (Fin (2004398109944393 / 2 ^ 48))) = Fin (8016407336719483 / 2 ^ 50) \<and>
   predict_switch tur_overflow_page = Inr (PInf, '' (Tur)'') \<and>
   \<not> flt PInf (lit 0) \<and> fmul PInf (lit 100) = PInf \<and> round2 (clamp PInf) = PInf \<and>
   predict_switch gram_infinity_page = Inr (NaN, '' (Gram)'') \<and> round2 (clamp NaN) = NaN \<and>
   (\<forall>numToString. \<exists>q. predict numToString maize_page = Inr q \<and>
      resultInput q = numToString (lit 0) @ '' quintals (approx.) (Maize, Good management)'')"
proof -
  have t: "\<not> flt (Fin (2004398109944393 / 2 ^ 48)) (lit 0)" by (simp add: lit_0)
  have h: "fmul (Fin (2004398109944393 / 2 ^ 48)) (lit 100) = Fin (1565936023394057 / 2 ^ 41)"
    unfolding lit_100 by (rule worked_times_100)
  have i: "\<not> flt PInf (lit 0)" "fmul PInf (lit 100) = PInf" "\<forall>h. fmul PInf (lit 100) \<noteq> Fin h"
    by (simp_all add: lit_0 lit_100 fmul_def is_inf_def is_zero_def signed_inf_def)
  have b1: "clamp (Fin (- (3033937945609849 / 2 ^ 48))) = lit 0"
    and b2: "round2 (clamp (Fin (- (3033937945609849 / 2 ^ 48)))) = lit 0"
    using final_value_clamped_and_rounded [OF below_switch] below_negative by blast+
  have b3: "\<exists>q. predict numToString maize_page = Inr q \<and>
      resultInput q = numToString (lit 0) @ '' quintals (approx.) (Maize, Good management)''"
    for numToString
  proof -
    from final_value_clamped_and_rounded [OF below_switch, of numToString]
    obtain q where q: "predict numToString maize_page = Inr q"
      "resultInput q = numToString (round2 (clamp (Fin (- (3033937945609849 / 2 ^ 48))))) @
         '' quintals (approx.)'' @ '' (Maize, Good management)''"
      by blast
    from q(2) have "resultInput q = numToString (lit 0) @ '' quintals (approx.)'' @
        '' (Maize, Good management)''"
      by (simp only: b2)
    then show ?thesis using q(1) by simp
  qed
  have worked: "clamp (Fin (2004398109944393 / 2 ^ 48)) = Fin (2004398109944393 / 2 ^ 48) \<and>
      (\<exists>k. of_int k - 1 / 2 \<le> (1565936023394057 / 2 ^ 41 :: rat) \<and>
        (1565936023394057 / 2 ^ 41 :: rat) < of_int k + 1 / 2 \<and>
        round2 (clamp (Fin (2004398109944393 / 2 ^ 48))) = rnd (of_int k / 100))"
    using final_value_clamped_and_rounded [OF worked_switch] t h by blast
  have "round2 (clamp PInf) = fmul PInf (lit 100)"
    using final_value_clamped_and_rounded [OF overflow_switch] i(1,3) by blast
  then have ovf: "round2 (clamp PInf) = PInf" by (simp only: i(2))
  have nan: "round2 (clamp NaN) = NaN"
    using final_value_clamped_and_rounded [OF gram_infinity_switch] by blast
  show ?thesis
    using b1 b2 b3 worked ovf nan below_switch below_negative worked_switch t h worked_value
      overflow_switch i(1,2) gram_infinity_switch
    by blast
qed

text \<open>
  Claim C5 as stated fails on inputs that pass the validation. With Gram selected, area 1,
  fertilizer 0, November rainfall 0 and the text \<^verbatim>\<open>Infinity\<close> as September and October
  rainfall, the regression adds \<open>-\<infinity>\<close> and \<open>+\<infinity>\<close> and the value put in the result field is
  \<open>NaN\<close>, which is not a non-negative number. With the Tur page of the tie, the value is
  not the nearest hundredth of the regression value. With the Tur page of the overflow, the
  value is \<open>+\<infinity>\<close>, which is not a number of two decimal places.
\<close>

theorem clamp_round_counterexample:
  "result_error (predict_switch gram_infinity_page) = None \<and>
   result_yield (predict_switch gram_infinity_page) = Some NaN \<and>
   round2 (clamp NaN) = NaN \<and> \<not> fle (lit 0) NaN \<and>
   result_yield (predict_switch tur_tie_page) = Some (Fin (5021513584518103 / 2 ^ 52)) \<and>
   round2 (clamp (Fin (5021513584518103 / 2 ^ 52))) = rnd (112 / 100) \<and>
   nearest_hundredth (5021513584518103 / 2 ^ 52) = 111 / 100 \<and>
   rnd (112 / 100) \<noteq> rnd (111 / 100) \<and>
   result_yield (predict_switch tur_overflow_page) = Some PInf \<and>
   round2 (clamp PInf) = PInf"
proof -
  have nan: "result_error (predict_switch gram_infinity_page) = None \<and>
      result_yield (predict_switch gram_infinity_page) = Some NaN \<and>
      round2 (clamp NaN) = NaN \<and> \<not> fle (lit 0) NaN"
    by (simp add: gram_infinity_switch result_error_def result_yield_def round2_def clamp_def
        fmul_def fdiv_def lit_0)
  have r112: "rnd (112 / 100) = Fin (1261007895663739 / 2 ^ 50)"
    using tie_hundredths by (simp add: fdiv_def is_inf_def is_zero_def)
  have tie: "result_yield (predict_switch tur_tie_page) = Some (Fin (5021513584518103 / 2 ^ 52)) \<and>
      round2 (clamp (Fin (5021513584518103 / 2 ^ 52))) = rnd (112 / 100) \<and>
      nearest_hundredth (5021513584518103 / 2 ^ 52) = 111 / 100 \<and>
      rnd (112 / 100) \<noteq> rnd (111 / 100)"
    unfolding r112 tie_nearest_double tie_value tie_nearest tie_switch
    by (simp add: result_yield_def)
  have ovf: "result_yield (predict_switch tur_overflow_page) = Some PInf \<and>
      round2 (clamp PInf) = PInf"
    unfolding overflow_value overflow_switch by (simp add: result_yield_def)
  show ?thesis using nan tie ovf by blast
qed

section \<open>The parsing step on arbitrary text\<close>

subsection \<open>The grammar\<close>

lemma code_units:
  "(of_char CHR ''0'' :: nat) = 48" "(of_char CHR ''9'' :: nat) = 57"
  "(of_char CHR ''+'' :: nat) = 43" "(of_char CHR ''-'' :: nat) = 45"
  "(of_char CHR ''.'' :: nat) = 46" "(of_char CHR ''e'' :: nat) = 101"
  "(of_char CHR ''E'' :: nat) = 69"
  by simp_all

lemma utf16_Infinity: "utf16 ''Infinity'' = [73, 110, 102, 105, 110, 105, 116, 121]"
  by (simp add: utf16_def)

lemma splits_iff: "(a, b) \<in> set (splits xs) \<longleftrightarrow> xs = a @ b"
proof
  assume "(a, b) \<in> set (splits xs)"
  then show "xs = a @ b" by (auto simp: splits_def)
next
  assume "xs = a @ b"
  then have "(a, b) = (take (length a) xs, drop (length a) xs)" "length a < Suc (length xs)"
    by simp_all
  then show "(a, b) \<in> set (splits xs)" unfolding splits_def
    by (metis (mono_tags, lifting) atLeastLessThan_iff image_eqI le0 set_map set_upt)
qed

lemma seq_of_iff: "seq_of A B xs \<longleftrightarrow> (\<exists>a b. xs = a @ b \<and> A a \<and> B b)"
  by (auto simp: seq_of_def splits_iff) blast

lemma one_of_sign: "one_of ''+-'' xs \<longleftrightarrow> xs = [43] \<or> xs = [45]"
  by (auto simp: one_of_def)

lemma one_of_point: "one_of ''.'' xs \<longleftrightarrow> xs = [46]"
  by (auto simp: one_of_def)

lemma one_of_indicator: "one_of ''eE'' xs \<longleftrightarrow> (\<exists>c. xs = [c] \<and> is_exponent_indicator c)"
  by (auto simp: one_of_def is_exponent_indicator_def)

lemma not_digit:
  "\<not> is_digit 43" "\<not> is_digit 45" "\<not> is_digit 46" "\<not> is_digit 73"
  "is_exponent_indicator c \<Longrightarrow> \<not> is_digit c"
  by (auto simp: is_digit_def is_exponent_indicator_def)

lemma digit_not:
  "is_digit c \<Longrightarrow> c \<noteq> 43 \<and> c \<noteq> 45 \<and> c \<noteq> 46 \<and> c \<noteq> 73 \<and> \<not> is_exponent_indicator c"
  by (auto simp: is_digit_def is_exponent_indicator_def)

lemma indicator_not: "is_exponent_indicator c \<Longrightarrow> c \<noteq> 43 \<and> c \<noteq> 45 \<and> c \<noteq> 46 \<and> c \<noteq> 73"
  by (auto simp: is_exponent_indicator_def)

lemma SignedInteger_iff:
  "SignedInteger xs \<longleftrightarrow>
     (\<exists>sg ds. xs = sg @ ds \<and> (sg = [] \<or> sg = [43] \<or> sg = [45]) \<and> DecimalDigits ds)"
  unfolding SignedInteger_def seq_of_iff one_of_sign
  by (metis append_Nil)

lemma ExponentPart_iff:
  "ExponentPart xs \<longleftrightarrow>
     (\<exists>c sg ds. xs = c # sg @ ds \<and> is_exponent_indicator c \<and>
        (sg = [] \<or> sg = [43] \<or> sg = [45]) \<and> DecimalDigits ds)"
  unfolding ExponentPart_def seq_of_iff one_of_indicator SignedInteger_iff
  by (metis append_Cons append_Nil)

lemma ExponentPart_hd: "ExponentPart x \<Longrightarrow> x \<noteq> [] \<and> is_exponent_indicator (hd x)"
  by (auto simp: ExponentPart_iff)

text \<open>How a run of digits sits at the start of a text.\<close>

lemma takeWhile_digits:
  assumes "list_all is_digit a" and "b = [] \<or> \<not> is_digit (hd b)"
  shows "takeWhile is_digit (a @ b) = a" and "dropWhile is_digit (a @ b) = b"
proof -
  have a: "\<And>x. x \<in> set a \<Longrightarrow> is_digit x" using assms(1) by (simp add: list_all_iff)
  have b: "takeWhile is_digit b = []" "dropWhile is_digit b = b"
    using assms(2) by (cases b; simp)+
  show "takeWhile is_digit (a @ b) = a" using a b by (simp add: takeWhile_append2)
  show "dropWhile is_digit (a @ b) = b" using a b by (simp add: dropWhile_append2)
qed

lemma dropWhile_start: "dropWhile P xs = [] \<or> \<not> P (hd (dropWhile P xs))"
  by (metis hd_dropWhile)

lemma takeWhile_all: "list_all P (takeWhile P xs)"
  by (simp add: list_all_iff) (meson set_takeWhileD)

lemma digit_split:
  assumes "list_all is_digit a" and "b = [] \<or> \<not> is_digit (hd b)"
    and "a @ b = a' @ c" and "list_all is_digit a'"
  shows "a = a' @ takeWhile is_digit c" and "b = dropWhile is_digit c"
proof -
  have a': "\<And>x. x \<in> set a' \<Longrightarrow> is_digit x" using assms(4) by (simp add: list_all_iff)
  have "a = takeWhile is_digit (a' @ c)"
    using takeWhile_digits(1) [OF assms(1,2)] assms(3) by simp
  then show "a = a' @ takeWhile is_digit c" using a' by (simp add: takeWhile_append2)
  have "b = dropWhile is_digit (a' @ c)"
    using takeWhile_digits(2) [OF assms(1,2)] assms(3) by simp
  then show "b = dropWhile is_digit c" using a' by (simp add: dropWhile_append2)
qed

text \<open>An optional sign in front of a text that does not start with a sign.\<close>

lemma strip_sign_text:
  "\<exists>sg. r = sg @ snd (strip_sign r) \<and>
     (sg = [] \<and> \<not> fst (strip_sign r) \<and> (r = [] \<or> hd r \<noteq> 43 \<and> hd r \<noteq> 45) \<or>
      sg = [43] \<and> \<not> fst (strip_sign r) \<or> sg = [45] \<and> fst (strip_sign r))"
  by (cases r) auto

lemma signed_prefix:
  assumes "prefix (sg' @ b') (sg @ b)"
    and "sg' = [] \<or> sg' = [43] \<or> sg' = [45]"
    and "sg = [] \<and> (b = [] \<or> hd b \<noteq> 43 \<and> hd b \<noteq> 45) \<or> sg = [43] \<or> sg = [45]"
    and "b' \<noteq> []" and "hd b' \<noteq> 43" and "hd b' \<noteq> 45"
  shows "sg' = sg \<and> prefix b' b"
proof -
  obtain x b'' where b': "b' = x # b''" using assms(4) by (cases b') auto
  then have x: "x \<noteq> 43" "x \<noteq> 45" using assms(5,6) by auto
  show ?thesis
    using assms(1,2,3) x unfolding b'
    by (cases b) (auto simp: prefix_def)
qed

lemma mv_signed_integer_text:
  assumes "sg = [] \<or> sg = [43] \<or> sg = [45]" and "d \<noteq> []" and "list_all is_digit d"
  shows "mv_signed_integer (sg @ d) = (if sg = [45] then - int (digits_val d) else int (digits_val d))"
proof -
  obtain x d' where d: "d = x # d'" using assms(2) by (cases d) auto
  then have "is_digit x" using assms(3) by simp
  then have "x \<noteq> 43" "x \<noteq> 45" using digit_not by blast+
  then show ?thesis using assms(1) d by (auto simp: mv_signed_integer_def utf16_def)
qed

lemma exponent_scan:
  "\<exists>xt w. r = xt @ w \<and> (xt = [] \<or> ExponentPart xt) \<and>
     mv_signed_integer (drop 1 xt) = exponent_part r \<and>
     (\<forall>x. ExponentPart x \<and> prefix x r \<longrightarrow> length x \<le> length xt)"
proof (cases r)
  case Nil
  have "mv_signed_integer [] = 0" by (simp add: mv_signed_integer_def digits_val_def utf16_def)
  then show ?thesis
    using Nil by (auto simp: exponent_part_def ExponentPart_iff intro!: exI [of _ "[]"])
next
  case (Cons c r')
  show ?thesis
  proof (cases "is_exponent_indicator c")
    case False
    have "mv_signed_integer [] = 0" by (simp add: mv_signed_integer_def digits_val_def utf16_def)
    moreover have "exponent_part r = 0"
      using False Cons by (simp add: exponent_part_def is_exponent_indicator_def)
    moreover have "\<not> (ExponentPart x \<and> prefix x r)" for x
      using False Cons by (auto simp: ExponentPart_iff prefix_def)
    ultimately show ?thesis by (intro exI [of _ "[]"] exI [of _ r]) auto
  next
    case True
    obtain sg where sg: "r' = sg @ snd (strip_sign r')"
      "sg = [] \<and> \<not> fst (strip_sign r') \<and> (r' = [] \<or> hd r' \<noteq> 43 \<and> hd r' \<noteq> 45) \<or>
       sg = [43] \<and> \<not> fst (strip_sign r') \<or> sg = [45] \<and> fst (strip_sign r')"
      using strip_sign_text [of r'] by blast
    define ds where "ds = snd (strip_sign r')"
    define d where "d = takeWhile is_digit ds"
    have dd: "list_all is_digit d" unfolding d_def by (rule takeWhile_all)
    have ep: "exponent_part r =
        (if d = [] then 0 else if fst (strip_sign r') then - int (digits_val d) else int (digits_val d))"
      using True Cons
      by (simp add: exponent_part_def is_exponent_indicator_def d_def ds_def split: prod.splits)
    have sg3: "sg = [] \<or> sg = [43] \<or> sg = [45]" using sg(2) by blast
    have sgb: "sg = [] \<and> (ds = [] \<or> hd ds \<noteq> 43 \<and> hd ds \<noteq> 45) \<or> sg = [43] \<or> sg = [45]"
      using sg unfolding ds_def by (metis append_Nil)
    have bound: "length x \<le> length (c # sg @ d) \<and> d \<noteq> []" if x: "ExponentPart x" "prefix x r" for x
    proof -
      from x(1) obtain c' sg' ds' where x': "x = c' # sg' @ ds'" "is_exponent_indicator c'"
        "sg' = [] \<or> sg' = [43] \<or> sg' = [45]" "DecimalDigits ds'"
        unfolding ExponentPart_iff by blast
      have ne: "ds' \<noteq> []" and all: "list_all is_digit ds'" using x'(4) by (auto simp: DecimalDigits_def)
      then have "is_digit (hd ds')" by (cases ds') auto
      then have h: "hd ds' \<noteq> 43" "hd ds' \<noteq> 45" using digit_not by blast+
      have "prefix (sg' @ ds') (sg @ ds)"
        using x(2) sg(1) unfolding x'(1) Cons ds_def by simp
      from signed_prefix [OF this x'(3) sgb ne h] have s: "sg' = sg" "prefix ds' ds" by blast+
      then obtain v where v: "ds = ds' @ v" by (auto simp: prefix_def)
      have "d = ds' @ takeWhile is_digit v"
        unfolding d_def v using all by (simp add: takeWhile_append2 list_all_iff)
      then show ?thesis using ne unfolding x'(1) s(1) by simp
    qed
    show ?thesis
    proof (cases "d = []")
      case True
      have "mv_signed_integer [] = 0" by (simp add: mv_signed_integer_def digits_val_def utf16_def)
      moreover have "exponent_part r = 0" using ep True by simp
      moreover have "\<not> (ExponentPart x \<and> prefix x r)" for x using bound [of x] True by blast
      ultimately show ?thesis by (intro exI [of _ "[]"] exI [of _ r]) auto
    next
      case False
      have r: "r = (c # sg @ d) @ dropWhile is_digit ds"
        unfolding Cons d_def using sg(1) by (simp add: ds_def)
      have e: "ExponentPart (c # sg @ d)"
        unfolding ExponentPart_iff DecimalDigits_def using \<open>is_exponent_indicator c\<close> sg3 False dd
        by blast
      have "mv_signed_integer (sg @ d) = exponent_part r"
        unfolding mv_signed_integer_text [OF sg3 False dd] ep using False sg(2) by auto
      then have m: "mv_signed_integer (drop 1 (c # sg @ d)) = exponent_part r" by simp
      show ?thesis
        using r e m bound by (intro exI [of _ "c # sg @ d"] exI [of _ "dropWhile is_digit ds"]) blast
    qed
  qed
qed

subsection \<open>The shape of a literal and of its prefixes\<close>

lemma unsigned_shape:
  "StrUnsignedDecimalLiteral u \<longleftrightarrow>
     u = utf16 ''Infinity'' \<or>
     (\<exists>ip dp x. u = ip @ dp @ x \<and> list_all is_digit ip \<and>
        (dp = [] \<and> ip \<noteq> [] \<or>
         (\<exists>fp. dp = 46 # fp \<and> list_all is_digit fp \<and> (ip \<noteq> [] \<or> fp \<noteq> []))) \<and>
        (x = [] \<or> ExponentPart x))"
  (is "?L \<longleftrightarrow> ?I \<or> ?S")
proof
  assume ?L
  then consider ?I
    | a f g where "u = a @ [46] @ f @ g" "DecimalDigits a" "f = [] \<or> DecimalDigits f"
        "g = [] \<or> ExponentPart g"
    | f g where "u = [46] @ f @ g" "DecimalDigits f" "g = [] \<or> ExponentPart g"
    | a g where "u = a @ g" "DecimalDigits a" "g = [] \<or> ExponentPart g"
    unfolding StrUnsignedDecimalLiteral_def seq_of_iff one_of_point opt_of_def by blast
  then show "?I \<or> ?S"
  proof cases
    case 1
    then show ?thesis by blast
  next
    case 2
    then have "u = a @ (46 # f) @ g \<and> list_all is_digit a \<and> list_all is_digit f \<and> a \<noteq> []"
      by (auto simp: DecimalDigits_def)
    then show ?thesis using 2(4) by blast
  next
    case 3
    then have "u = [] @ (46 # f) @ g \<and> list_all is_digit [] \<and> list_all is_digit f \<and> f \<noteq> []"
      by (auto simp: DecimalDigits_def)
    then show ?thesis using 3(3) by blast
  next
    case 4
    then have "u = a @ [] @ g \<and> list_all is_digit a \<and> a \<noteq> []"
      by (auto simp: DecimalDigits_def)
    then show ?thesis using 4(3) by blast
  qed
next
  assume "?I \<or> ?S"
  then show ?L
  proof
    assume ?I
    then show ?L by (simp add: StrUnsignedDecimalLiteral_def)
  next
    assume ?S
    then obtain ip dp x where s: "u = ip @ dp @ x" "list_all is_digit ip"
      "dp = [] \<and> ip \<noteq> [] \<or>
         (\<exists>fp. dp = 46 # fp \<and> list_all is_digit fp \<and> (ip \<noteq> [] \<or> fp \<noteq> []))"
      "x = [] \<or> ExponentPart x"
      by blast
    from s(3) show ?L
    proof
      assume "dp = [] \<and> ip \<noteq> []"
      then have "u = ip @ x \<and> DecimalDigits ip" using s(1,2) by (simp add: DecimalDigits_def)
      then have "seq_of DecimalDigits (opt_of ExponentPart) u"
        unfolding seq_of_iff opt_of_def using s(4) by blast
      then show ?L by (simp add: StrUnsignedDecimalLiteral_def)
    next
      assume "\<exists>fp. dp = 46 # fp \<and> list_all is_digit fp \<and> (ip \<noteq> [] \<or> fp \<noteq> [])"
      then obtain fp where fp: "dp = 46 # fp" "list_all is_digit fp" "ip \<noteq> [] \<or> fp \<noteq> []"
        by blast
      show ?L
      proof (cases "ip = []")
        case True
        then have "u = [46] @ fp @ x \<and> DecimalDigits fp"
          using s(1) fp by (simp add: DecimalDigits_def)
        then have "seq_of (one_of ''.'') (seq_of DecimalDigits (opt_of ExponentPart)) u"
          unfolding seq_of_iff opt_of_def one_of_point using s(4) by blast
        then show ?L by (simp add: StrUnsignedDecimalLiteral_def)
      next
        case False
        then have "u = ip @ [46] @ fp @ x \<and> DecimalDigits ip \<and> (fp = [] \<or> DecimalDigits fp)"
          using s(1,2) fp by (auto simp: DecimalDigits_def)
        then have "seq_of DecimalDigits
            (seq_of (one_of ''.'') (seq_of (opt_of DecimalDigits) (opt_of ExponentPart))) u"
          unfolding seq_of_iff opt_of_def one_of_point using s(4) by blast
        then show ?L by (simp add: StrUnsignedDecimalLiteral_def)
      qed
    qed
  qed
qed

lemma decimal_prefix_bound:
  assumes u: "u = ip @ r1" and ipd: "list_all is_digit ip" and r1: "r1 = [] \<or> \<not> is_digit (hd r1)"
    and fr: "r1 = dp @ r2"
    and dp: "dp = [] \<and> (r1 = [] \<or> hd r1 \<noteq> 46) \<or>
             (\<exists>fp. dp = 46 # fp \<and> list_all is_digit fp \<and> (r2 = [] \<or> \<not> is_digit (hd r2)))"
    and ex: "\<forall>x. ExponentPart x \<and> prefix x r2 \<longrightarrow> length x \<le> n"
    and pre: "prefix p u"
    and sh: "p = ip' @ dp' @ x'" "list_all is_digit ip'"
      "dp' = [] \<and> ip' \<noteq> [] \<or>
         (\<exists>fp'. dp' = 46 # fp' \<and> list_all is_digit fp' \<and> (ip' \<noteq> [] \<or> fp' \<noteq> []))"
      "x' = [] \<or> ExponentPart x'"
  shows "length p \<le> length ip + length dp + n \<and> (ip \<noteq> [] \<or> 2 \<le> length dp)"
proof -
  obtain w where w: "u = ip' @ dp' @ x' @ w" using pre sh(1) by (auto simp: prefix_def)
  have xh: "x' \<noteq> [] \<Longrightarrow> \<not> is_digit (hd x') \<and> hd x' \<noteq> 46"
    using sh(4) ExponentPart_hd [of x'] not_digit(5) indicator_not by blast
  have dh: "dp' \<noteq> [] \<Longrightarrow> hd dp' = 46" using sh(3) by auto
  define rest where "rest = dp' @ x' @ w"
  have sp: "ip = ip' @ takeWhile is_digit rest" "r1 = dropWhile is_digit rest"
    using digit_split [OF ipd r1 _ sh(2), of rest] u w by (simp_all add: rest_def)
  show ?thesis
  proof (cases "takeWhile is_digit rest = []")
    case False
    then have "rest \<noteq> [] \<and> is_digit (hd rest)" by (cases rest) (auto split: if_splits)
    then have e: "dp' = [] \<and> x' = []"
      using dh xh not_digit(3) unfolding rest_def by (cases dp'; cases x') auto
    then have "ip' \<noteq> []" using sh(3) by auto
    then show ?thesis using e sp(1) sh(1) by simp
  next
    case True
    then have i: "ip = ip'" and r: "r1 = dp' @ x' @ w"
      using sp takeWhile_dropWhile_id [of is_digit rest] by (simp_all add: rest_def)
    from sh(3) show ?thesis
    proof
      assume a: "dp' = [] \<and> ip' \<noteq> []"
      show ?thesis
      proof (cases "x' = []")
        case True
        then show ?thesis using a i sh(1) by simp
      next
        case False
        then have "r1 \<noteq> [] \<and> hd r1 \<noteq> 46" using xh r a by simp
        then have d: "dp = []" using dp fr by auto
        then have "r2 = x' @ w" using fr r a by simp
        then have "prefix x' r2" by simp
        then have "length x' \<le> n" using ex sh(4) False by blast
        then show ?thesis using a i d sh(1) by simp
      qed
    next
      assume "\<exists>fp'. dp' = 46 # fp' \<and> list_all is_digit fp' \<and> (ip' \<noteq> [] \<or> fp' \<noteq> [])"
      then obtain fp' where f': "dp' = 46 # fp'" "list_all is_digit fp'" "ip' \<noteq> [] \<or> fp' \<noteq> []"
        by blast
      have "r1 \<noteq> [] \<and> hd r1 = 46" using r f'(1) by simp
      then obtain fp where f: "dp = 46 # fp" "list_all is_digit fp" "r2 = [] \<or> \<not> is_digit (hd r2)"
        using dp by auto
      have "fp @ r2 = fp' @ x' @ w" using fr r f(1) f'(1) by simp
      from digit_split [OF f(2,3) this f'(2)]
      have sp2: "fp = fp' @ takeWhile is_digit (x' @ w)" "r2 = dropWhile is_digit (x' @ w)" .
      have v: "ip \<noteq> [] \<or> 2 \<le> length dp" using f' i sp2(1) f(1) by (cases fp') auto
      show ?thesis
      proof (cases "x' = []")
        case True
        then show ?thesis using v i sh(1) f'(1) f(1) sp2(1) by simp
      next
        case False
        then have "takeWhile is_digit (x' @ w) = []" using xh by (cases x') auto
        then have "fp = fp'" "r2 = x' @ w"
          using sp2 takeWhile_dropWhile_id [of is_digit "x' @ w"] by simp_all
        moreover from this have "length x' \<le> n" using ex sh(4) False by auto
        ultimately show ?thesis using v i sh(1) f'(1) f(1) by simp
      qed
    qed
  qed
qed

subsection \<open>The prefix read by the parser\<close>

lemma foldl_digits:
  "foldl (\<lambda>n c. 10 * n + digit_val c) k b =
     k * 10 ^ length b + foldl (\<lambda>n c. 10 * n + digit_val c) 0 b"
proof (induction b arbitrary: k)
  case Nil
  then show ?case by simp
next
  case (Cons c b)
  show ?case
    using Cons [of "10 * k + digit_val c"] Cons [of "digit_val c"] by (simp add: algebra_simps)
qed

lemma digits_val_append: "digits_val (a @ b) = digits_val a * 10 ^ length b + digits_val b"
  unfolding digits_val_def foldl_append by (rule foldl_digits)

lemma takeWhile_pre:
  assumes "\<forall>x\<in>set a. P x" and "b = [] \<or> \<not> P (hd b)"
  shows "takeWhile P (a @ b) = a"
proof -
  have "takeWhile P b = []" using assms(2) by (cases b) auto
  then show ?thesis using assms(1) by (simp add: takeWhile_append2)
qed

lemma mv_parts:
  assumes ip: "list_all is_digit ip"
    and dp: "dp = [] \<or> (\<exists>fp. dp = 46 # fp \<and> list_all is_digit fp)"
    and xt: "xt = [] \<or> ExponentPart xt"
  shows "mv_unsigned (ip @ dp @ xt) =
     of_nat (digits_val (ip @ drop 1 dp)) *
     10 powi (mv_signed_integer (drop 1 xt) - int (length (drop 1 dp)))"
proof -
  have ipn: "\<forall>x\<in>set ip. \<not> is_exponent_indicator x \<and> x \<noteq> 46"
    using ip digit_not by (auto simp: list_all_iff)
  have dpn: "\<forall>x\<in>set dp. \<not> is_exponent_indicator x"
  proof -
    have "\<not> is_exponent_indicator 46" by (simp add: is_exponent_indicator_def)
    then show ?thesis using dp digit_not by (auto simp: list_all_iff)
  qed
  have "takeWhile (\<lambda>c. \<not> is_exponent_indicator c) ((ip @ dp) @ xt) = ip @ dp"
    using ipn dpn xt ExponentPart_hd [of xt] by (intro takeWhile_pre) auto
  then have m: "takeWhile (\<lambda>c. \<not> is_exponent_indicator c) (ip @ dp @ xt) = ip @ dp" by simp
  have a: "takeWhile (\<lambda>c. c \<noteq> 46) (ip @ dp) = ip"
    using ipn dp by (intro takeWhile_pre) auto
  define A where "A = digits_val ip"
  define B where "B = digits_val (drop 1 dp)"
  define n where "n = length (drop 1 dp)"
  define e where "e = mv_signed_integer (drop 1 xt)"
  have "mv_unsigned (ip @ dp @ xt) =
      (of_nat A + of_nat B * 10 powi (- int n)) * 10 powi e"
    unfolding mv_unsigned_def Let_def m code_units a A_def B_def n_def e_def by simp
  also have "\<dots> = of_nat (A * 10 ^ n + B) * 10 powi (e - int n)"
    by (simp add: power_int_diff power_int_minus field_simps)
  finally show ?thesis
    unfolding A_def B_def n_def e_def by (simp add: digits_val_append)
qed

lemma fraction_text:
  assumes "fraction_part r1 = (fp, r2)"
  shows "\<exists>dp. r1 = dp @ r2 \<and> fp = drop 1 dp \<and> list_all is_digit fp \<and>
     (dp = [] \<and> (r1 = [] \<or> hd r1 \<noteq> 46) \<or>
      dp = 46 # fp \<and> (r2 = [] \<or> \<not> is_digit (hd r2)))"
proof (cases r1)
  case Nil
  then show ?thesis using assms by (simp add: fraction_part_def)
next
  case (Cons c r')
  show ?thesis
  proof (cases "c = 46")
    case True
    then have f: "fp = takeWhile is_digit r'" "r2 = dropWhile is_digit r'"
      using assms Cons by (simp_all add: fraction_part_def)
    have "r1 = (46 # fp) @ r2" using Cons True f by simp
    moreover have "list_all is_digit fp" unfolding f by (rule takeWhile_all)
    moreover have "r2 = [] \<or> \<not> is_digit (hd r2)" unfolding f by (rule dropWhile_start)
    ultimately show ?thesis by (intro exI [of _ "46 # fp"]) simp
  next
    case False
    then have "fp = []" "r2 = r1" using assms Cons by (simp_all add: fraction_part_def)
    then show ?thesis using Cons False by (intro exI [of _ "[]"]) simp
  qed
qed

lemma prefix_Infinity: "prefix (utf16 ''Infinity'') u \<longleftrightarrow> take 8 u = utf16 ''Infinity''"
proof
  assume "prefix (utf16 ''Infinity'') u"
  then obtain w where "u = utf16 ''Infinity'' @ w" by (auto simp: prefix_def)
  then show "take 8 u = utf16 ''Infinity''" by (simp add: utf16_def)
next
  assume "take 8 u = utf16 ''Infinity''"
  then show "prefix (utf16 ''Infinity'') u" by (metis take_is_prefix)
qed

lemma unsigned_scan:
  assumes ninf: "take 8 u \<noteq> utf16 ''Infinity''"
    and fr: "fraction_part (dropWhile is_digit u) = (fp, r)"
  shows "(takeWhile is_digit u = [] \<and> fp = [] \<longrightarrow>
            (\<forall>p. prefix p u \<longrightarrow> \<not> StrUnsignedDecimalLiteral p)) \<and>
         (\<not> (takeWhile is_digit u = [] \<and> fp = []) \<longrightarrow>
            (\<exists>c. prefix c u \<and> StrUnsignedDecimalLiteral c \<and> c \<noteq> utf16 ''Infinity'' \<and>
               (\<forall>p. prefix p u \<and> StrUnsignedDecimalLiteral p \<longrightarrow> length p \<le> length c) \<and>
               mv_unsigned c =
                 of_nat (digits_val (takeWhile is_digit u @ fp)) *
                 10 powi (exponent_part r - int (length fp))))"
proof -
  define ip where "ip = takeWhile is_digit u"
  define r1 where "r1 = dropWhile is_digit u"
  have u: "u = ip @ r1" by (simp add: ip_def r1_def)
  have ipd: "list_all is_digit ip" unfolding ip_def by (rule takeWhile_all)
  have r1s: "r1 = [] \<or> \<not> is_digit (hd r1)" unfolding r1_def by (rule dropWhile_start)
  from fraction_text [OF fr [folded r1_def]] obtain dp where
    dp: "r1 = dp @ r" "fp = drop 1 dp" "list_all is_digit fp"
      "dp = [] \<and> (r1 = [] \<or> hd r1 \<noteq> 46) \<or> dp = 46 # fp \<and> (r = [] \<or> \<not> is_digit (hd r))"
    by blast
  from exponent_scan [of r] obtain xt w where
    xt: "r = xt @ w" "xt = [] \<or> ExponentPart xt"
      "mv_signed_integer (drop 1 xt) = exponent_part r"
      "\<forall>x. ExponentPart x \<and> prefix x r \<longrightarrow> length x \<le> length xt"
    by blast
  have dpc: "dp = [] \<and> (r1 = [] \<or> hd r1 \<noteq> 46) \<or>
      (\<exists>fp. dp = 46 # fp \<and> list_all is_digit fp \<and> (r = [] \<or> \<not> is_digit (hd r)))"
    using dp(3,4) by blast
  have bound: "length p \<le> length ip + length dp + length xt \<and> (ip \<noteq> [] \<or> fp \<noteq> [])"
    if p: "prefix p u" "StrUnsignedDecimalLiteral p" for p
  proof -
    have "p \<noteq> utf16 ''Infinity''" using p(1) ninf prefix_Infinity by blast
    then obtain ip' dp' x' where sh: "p = ip' @ dp' @ x'" "list_all is_digit ip'"
      "dp' = [] \<and> ip' \<noteq> [] \<or>
         (\<exists>fp'. dp' = 46 # fp' \<and> list_all is_digit fp' \<and> (ip' \<noteq> [] \<or> fp' \<noteq> []))"
      "x' = [] \<or> ExponentPart x'"
      using p(2) unfolding unsigned_shape by blast
    from decimal_prefix_bound [OF u ipd r1s dp(1) dpc xt(4) p(1) sh]
    have "length p \<le> length ip + length dp + length xt" "ip \<noteq> [] \<or> 2 \<le> length dp" by blast+
    moreover have "2 \<le> length dp \<Longrightarrow> fp \<noteq> []" using dp(2) by (cases dp) auto
    ultimately show ?thesis by blast
  qed
  show ?thesis
  proof (intro conjI impI allI)
    fix p
    assume "takeWhile is_digit u = [] \<and> fp = []" and "prefix p u"
    then show "\<not> StrUnsignedDecimalLiteral p" using bound [of p] by (auto simp: ip_def)
  next
    assume v: "\<not> (takeWhile is_digit u = [] \<and> fp = [])"
    define c where "c = ip @ dp @ xt"
    have pc: "prefix c u" unfolding c_def u dp(1) xt(1) by simp
    have shape: "dp = [] \<and> ip \<noteq> [] \<or>
        (\<exists>fp. dp = 46 # fp \<and> list_all is_digit fp \<and> (ip \<noteq> [] \<or> fp \<noteq> []))"
      using v dp(2,3,4) by (auto simp: ip_def)
    have lc: "StrUnsignedDecimalLiteral c"
      unfolding unsigned_shape c_def using ipd shape xt(2) by blast
    have nc: "c \<noteq> utf16 ''Infinity''" using pc ninf prefix_Infinity by blast
    have mx: "\<forall>p. prefix p u \<and> StrUnsignedDecimalLiteral p \<longrightarrow> length p \<le> length c"
    proof (intro allI impI)
      fix p
      assume "prefix p u \<and> StrUnsignedDecimalLiteral p"
      then have "length p \<le> length ip + length dp + length xt" using bound by blast
      then show "length p \<le> length c" by (simp add: c_def)
    qed
    have "dp = [] \<or> (\<exists>fp. dp = 46 # fp \<and> list_all is_digit fp)" using dpc by blast
    from mv_parts [OF ipd this xt(2)]
    have mv: "mv_unsigned c =
        of_nat (digits_val (takeWhile is_digit u @ fp)) * 10 powi (exponent_part r - int (length fp))"
      unfolding c_def xt(3) dp(2) ip_def .
    show "\<exists>c. prefix c u \<and> StrUnsignedDecimalLiteral c \<and> c \<noteq> utf16 ''Infinity'' \<and>
        (\<forall>p. prefix p u \<and> StrUnsignedDecimalLiteral p \<longrightarrow> length p \<le> length c) \<and>
        mv_unsigned c =
          of_nat (digits_val (takeWhile is_digit u @ fp)) *
          10 powi (exponent_part r - int (length fp))"
      using pc lc nc mx mv by blast
  qed
qed

subsection \<open>The longest prefix\<close>

lemma literal_sign:
  "StrDecimalLiteral p \<longleftrightarrow>
     (\<exists>sg u. p = sg @ u \<and> (sg = [] \<or> sg = [43] \<or> sg = [45]) \<and> StrUnsignedDecimalLiteral u)"
  unfolding StrDecimalLiteral_def seq_of_iff one_of_sign
  by (metis append_Nil)

lemma unsigned_start:
  assumes "StrUnsignedDecimalLiteral u"
  shows "u \<noteq> [] \<and> hd u \<noteq> 43 \<and> hd u \<noteq> 45"
proof -
  from assms consider "u = utf16 ''Infinity''"
    | ip dp x where "u = ip @ dp @ x" "list_all is_digit ip"
        "dp = [] \<and> ip \<noteq> [] \<or> (\<exists>fp. dp = 46 # fp)"
    unfolding unsigned_shape by blast
  then show ?thesis
  proof cases
    case 1
    then show ?thesis by (simp add: utf16_def)
  next
    case 2
    show ?thesis
    proof (cases ip)
      case Nil
      then show ?thesis using 2 by auto
    next
      case (Cons c ip')
      then have "is_digit c" using 2(2) by simp
      then show ?thesis using 2(1) Cons digit_not by auto
    qed
  qed
qed

lemma prefixes_sorted: "sorted_wrt (\<lambda>a b. length a < length b) (prefixes t)"
  by (induction t) (auto simp: sorted_wrt_map)

lemma sorted_wrt_last:
  "sorted_wrt R xs \<Longrightarrow> x \<in> set xs \<Longrightarrow> x = last xs \<or> R x (last xs)"
  by (induction xs) auto

lemma numeric_prefix_None:
  assumes "\<forall>p. prefix p t \<longrightarrow> \<not> StrDecimalLiteral p"
  shows "numeric_prefix t = None"
proof -
  have "filter StrDecimalLiteral (prefixes t) = []"
    using assms by (simp add: filter_empty_conv)
  then show ?thesis by (simp add: numeric_prefix_def)
qed

lemma numeric_prefix_Some:
  assumes "prefix c t" and "StrDecimalLiteral c"
    and "\<forall>p. prefix p t \<and> StrDecimalLiteral p \<longrightarrow> length p \<le> length c"
  shows "numeric_prefix t = Some c"
proof -
  define ls where "ls = filter StrDecimalLiteral (prefixes t)"
  have c: "c \<in> set ls" using assms(1,2) by (simp add: ls_def)
  then have ne: "ls \<noteq> []" by auto
  then have "last ls \<in> set ls" by simp
  then have "length (last ls) \<le> length c" using assms(3) by (simp add: ls_def)
  moreover have "sorted_wrt (\<lambda>a b. length a < length b) ls"
    unfolding ls_def by (intro sorted_wrt_filter prefixes_sorted)
  then have "c = last ls \<or> length c < length (last ls)" using c by (rule sorted_wrt_last)
  ultimately have "last ls = c" by auto
  then show ?thesis using ne by (simp add: numeric_prefix_def ls_def [symmetric])
qed

lemma numeric_prefix_longest:
  "(numeric_prefix t = None \<longleftrightarrow> (\<forall>p. prefix p t \<longrightarrow> \<not> StrDecimalLiteral p)) \<and>
   (numeric_prefix t = Some l \<longleftrightarrow>
      prefix l t \<and> StrDecimalLiteral l \<and>
      (\<forall>p. prefix p t \<and> StrDecimalLiteral p \<longrightarrow> length p \<le> length l))"
proof -
  define ls where "ls = filter StrDecimalLiteral (prefixes t)"
  have srt: "sorted_wrt (\<lambda>a b. length a < length b) ls"
    unfolding ls_def by (intro sorted_wrt_filter prefixes_sorted)
  have a: "numeric_prefix t = None \<longleftrightarrow> (\<forall>p. prefix p t \<longrightarrow> \<not> StrDecimalLiteral p)"
    by (auto simp: numeric_prefix_def Let_def filter_empty_conv)
  have b: "prefix l t \<and> StrDecimalLiteral l \<and>
      (\<forall>p. prefix p t \<and> StrDecimalLiteral p \<longrightarrow> length p \<le> length l)"
    if s: "numeric_prefix t = Some l"
  proof -
    from s have ne: "ls \<noteq> []" and l: "l = last ls"
      by (auto simp: numeric_prefix_def Let_def ls_def split: if_splits)
    then have m: "l \<in> set ls" by simp
    have "length p \<le> length l" if "prefix p t \<and> StrDecimalLiteral p" for p
    proof -
      from that have "p \<in> set ls" by (simp add: ls_def)
      from sorted_wrt_last [OF srt this] show ?thesis unfolding l by auto
    qed
    then show ?thesis using m by (simp add: ls_def)
  qed
  show ?thesis using a b numeric_prefix_Some by blast
qed

lemma signed_value:
  assumes sg: "sg = [] \<and> \<not> neg \<or> sg = [43] \<and> \<not> neg \<or> sg = [45] \<and> neg"
    and c: "c \<noteq> []" "hd c \<noteq> 43" "hd c \<noteq> 45"
  shows "StringNumericValue (sg @ c) = (if neg then fneg (unsigned_value c) else unsigned_value c)"
proof -
  obtain x c' where "c = x # c'" using c(1) by (cases c) auto
  then show ?thesis using sg c(2,3) by (auto simp: StringNumericValue_def utf16_def)
qed

lemma parseFloat_trimmed:
  assumes st: "strip_sign t = (neg, u)"
  shows "(let ip = takeWhile is_digit u; (fp, r) = fraction_part (dropWhile is_digit u) in
          if take 8 u = utf16 ''Infinity'' then signed_inf neg
          else if ip = [] \<and> fp = [] then NaN
          else let mv = of_nat (digits_val (ip @ fp)) * 10 powi (exponent_part r - int (length fp))
               in if mv = 0 then signed_zero neg else rnd (if neg then - mv else mv)) =
         (case numeric_prefix t of None \<Rightarrow> NaN | Some l \<Rightarrow> StringNumericValue l)"
proof -
  obtain sg where sg: "t = sg @ u"
    "sg = [] \<and> \<not> neg \<and> (t = [] \<or> hd t \<noteq> 43 \<and> hd t \<noteq> 45) \<or> sg = [43] \<and> \<not> neg \<or> sg = [45] \<and> neg"
    using strip_sign_text [of t] st by auto
  have sgb: "sg = [] \<and> (u = [] \<or> hd u \<noteq> 43 \<and> hd u \<noteq> 45) \<or> sg = [43] \<or> sg = [45]"
    using sg by (metis append_Nil)
  have sgv: "sg = [] \<and> \<not> neg \<or> sg = [43] \<and> \<not> neg \<or> sg = [45] \<and> neg" using sg(2) by blast
  have sg3: "sg = [] \<or> sg = [43] \<or> sg = [45]" using sg(2) by blast
  have split: "\<exists>u'. p = sg @ u' \<and> prefix u' u \<and> StrUnsignedDecimalLiteral u'"
    if p: "prefix p t" "StrDecimalLiteral p" for p
  proof -
    from p(2) obtain sg' u' where p': "p = sg' @ u'" "sg' = [] \<or> sg' = [43] \<or> sg' = [45]"
      "StrUnsignedDecimalLiteral u'"
      unfolding literal_sign by blast
    have s: "u' \<noteq> []" "hd u' \<noteq> 43" "hd u' \<noteq> 45" using unsigned_start [OF p'(3)] by blast+
    have "prefix (sg' @ u') (sg @ u)" using p(1) p'(1) sg(1) by simp
    from signed_prefix [OF this p'(2) sgb s] show ?thesis using p' by blast
  qed
  obtain fp r where fr: "fraction_part (dropWhile is_digit u) = (fp, r)"
    by (cases "fraction_part (dropWhile is_digit u)")
  show ?thesis
  proof (cases "take 8 u = utf16 ''Infinity''")
    case True
    define c where "c = sg @ utf16 ''Infinity''"
    have pu: "prefix (utf16 ''Infinity'') u" using True prefix_Infinity by blast
    then have pc: "prefix c t" unfolding c_def sg(1) by simp
    have "StrUnsignedDecimalLiteral (utf16 ''Infinity'')" by (simp add: StrUnsignedDecimalLiteral_def)
    then have lc: "StrDecimalLiteral c" unfolding literal_sign c_def using sg3 by blast
    have hdu: "u \<noteq> [] \<and> hd u = 73"
      using pu by (auto simp: prefix_def utf16_def)
    have mx: "length p \<le> length c" if p: "prefix p t \<and> StrDecimalLiteral p" for p
    proof -
      from split [of p] p obtain u' where u': "p = sg @ u'" "prefix u' u" "StrUnsignedDecimalLiteral u'"
        by blast
      have "u' = utf16 ''Infinity''"
      proof (rule ccontr)
        assume n: "u' \<noteq> utf16 ''Infinity''"
        then obtain ip dp x where sh: "u' = ip @ dp @ x" "list_all is_digit ip"
          "dp = [] \<and> ip \<noteq> [] \<or> (\<exists>fp. dp = 46 # fp)"
          using u'(3) unfolding unsigned_shape by blast
        have "u' \<noteq> []" using sh by auto
        then have "hd u' = 73" using u'(2) hdu by (auto simp: prefix_def)
        moreover have "hd u' \<noteq> 73"
        proof (cases ip)
          case Nil
          then show ?thesis using sh by auto
        next
          case (Cons d ip')
          then have "is_digit d" using sh(2) by simp
          then show ?thesis using sh(1) Cons digit_not by auto
        qed
        ultimately show False by simp
      qed
      then show ?thesis by (simp add: u'(1) c_def)
    qed
    have np: "numeric_prefix t = Some c" using pc lc mx by (intro numeric_prefix_Some) blast+
    have "StringNumericValue c = signed_inf neg"
      unfolding c_def using sgv
      by (subst signed_value [of sg neg]) (auto simp: utf16_def unsigned_value_def signed_inf_def)
    then show ?thesis using True np by (simp add: Let_def split: prod.splits)
  next
    case False
    note scan = unsigned_scan [OF False fr]
    show ?thesis
    proof (cases "takeWhile is_digit u = [] \<and> fp = []")
      case True
      have "\<not> StrDecimalLiteral p" if "prefix p t" for p
        using split [of p] that scan True by blast
      then have "numeric_prefix t = None" by (intro numeric_prefix_None) blast
      then show ?thesis using False True fr by (simp add: Let_def)
    next
      case nn: False
      define mv where "mv = rat_of_nat (digits_val (takeWhile is_digit u @ fp)) *
          10 powi (exponent_part r - int (length fp))"
      from scan nn obtain c where c: "prefix c u" "StrUnsignedDecimalLiteral c"
        "c \<noteq> utf16 ''Infinity''"
        "\<forall>p. prefix p u \<and> StrUnsignedDecimalLiteral p \<longrightarrow> length p \<le> length c"
        "mv_unsigned c = mv"
        unfolding mv_def by blast
      have pc: "prefix (sg @ c) t" using c(1) sg(1) by simp
      have lc: "StrDecimalLiteral (sg @ c)" unfolding literal_sign using sg3 c(2) by blast
      have mx: "length p \<le> length (sg @ c)" if p: "prefix p t \<and> StrDecimalLiteral p" for p
      proof -
        from split [of p] p obtain u' where u': "p = sg @ u'" "prefix u' u"
          "StrUnsignedDecimalLiteral u'"
          by blast
        then have "length u' \<le> length c" using c(4) by blast
        then show ?thesis by (simp add: u'(1))
      qed
      have np: "numeric_prefix t = Some (sg @ c)"
        using pc lc mx by (intro numeric_prefix_Some) blast+
      have uv: "unsigned_value c = rnd mv" using c(3,5) by (simp add: unsigned_value_def)
      have "StringNumericValue (sg @ c) = (if neg then fneg (rnd mv) else rnd mv)"
        using signed_value [OF sgv] unsigned_start [OF c(2)] uv by simp
      also have "\<dots> = (if mv = 0 then signed_zero neg else rnd (if neg then - mv else mv))"
        by (simp add: rnd_0 signed_zero_def rnd_minus)
      finally have v: "StringNumericValue (sg @ c) =
          (if mv = 0 then signed_zero neg else rnd (if neg then - mv else mv))" .
      show ?thesis
        unfolding np option.case v
        by (simp only: Let_def fr prod.case False nn if_False mv_def)
    qed
  qed
qed

lemma parseFloat_longest_prefix: "parseFloat s = spec_parseFloat s"
proof -
  obtain neg u where st: "strip_sign (dropWhile is_ws s) = (neg, u)"
    by (cases "strip_sign (dropWhile is_ws s)")
  show ?thesis
    unfolding spec_parseFloat_def parseFloat_trimmed [OF st, symmetric]
    by (simp add: parseFloat_def st Let_def split: prod.splits)
qed

subsection \<open>The result of the parsing step\<close>

lemma is_double_signed_inf: "is_double (signed_inf b)"
  by (simp add: is_double_def signed_inf_def)

lemma is_double_signed_zero: "is_double (signed_zero b)"
  by (simp add: is_double_def signed_zero_def rnd_0)

lemma is_double_NaN: "is_double NaN"
  by (simp add: is_double_def)

lemma is_double_parseFloat: "is_double (parseFloat s)"
proof -
  obtain neg u where su: "strip_sign (dropWhile is_ws s) = (neg, u)"
    by (cases "strip_sign (dropWhile is_ws s)")
  obtain fp r where fr: "fraction_part (dropWhile is_digit u) = (fp, r)"
    by (cases "fraction_part (dropWhile is_digit u)")
  show ?thesis
    unfolding parseFloat_def su fr Let_def prod.case
    by (simp add: is_double_signed_inf is_double_signed_zero is_double_rnd is_double_NaN)
qed

lemma set_dropWhile_subset: "set (dropWhile P xs) \<subseteq> set xs"
  by (induction xs) auto

lemma strip_sign_subset: "set (snd (strip_sign xs)) \<subseteq> set xs"
  by (cases xs) auto

lemma fraction_part_subset: "set (fst (fraction_part xs)) \<subseteq> set xs"
  by (cases xs) (auto simp: fraction_part_def dest: set_takeWhileD)

lemma parseFloat_digit:
  assumes "parseFloat s \<noteq> NaN" and "\<not> is_inf (parseFloat s)"
  shows "\<exists>c\<in>set s. is_digit c"
proof -
  define u where "u = snd (strip_sign (dropWhile is_ws s))"
  define ip where "ip = takeWhile is_digit u"
  define fp where "fp = fst (fraction_part (dropWhile is_digit u))"
  have us: "set u \<subseteq> set s"
    unfolding u_def using strip_sign_subset set_dropWhile_subset by fast
  have "ip \<noteq> [] \<or> fp \<noteq> []"
    using assms unfolding parseFloat_def Let_def u_def ip_def fp_def
    by (auto simp: is_inf_def signed_inf_def split: prod.splits if_splits)
  then obtain c where c: "c \<in> set ip \<or> c \<in> set fp"
    by (cases ip; cases fp) auto
  have d: "is_digit c"
  proof -
    have "c \<in> set ip \<Longrightarrow> is_digit c" unfolding ip_def by (rule set_takeWhileD [THEN conjunct2])
    moreover have "c \<in> set fp \<Longrightarrow> is_digit c"
      unfolding fp_def fraction_part_def
      by (auto split: list.splits if_splits dest: set_takeWhileD)
    ultimately show ?thesis using c by blast
  qed
  have "set ip \<subseteq> set u" unfolding ip_def by (auto dest: set_takeWhileD)
  moreover have "set fp \<subseteq> set u"
    unfolding fp_def using fraction_part_subset set_dropWhile_subset by fast
  ultimately have "c \<in> set s" using c us by blast
  then show ?thesis using d by blast
qed

lemma unsigned_value_cases: "unsigned_value xs = PInf \<or> (\<exists>h. 0 \<le> h \<and> unsigned_value xs = Fin h \<and> rnd h = Fin h)"
proof (cases "xs = utf16 ''Infinity''")
  case True
  then show ?thesis by (simp add: unsigned_value_def)
next
  case False
  have "0 \<le> mv_unsigned xs" by (simp add: mv_unsigned_def Let_def)
  from rnd_nonneg_cases [OF this] is_double_rnd [of "mv_unsigned xs"] show ?thesis
    using False by (auto simp: unsigned_value_def is_double_def)
qed

lemma StringNumericValue_double: "StringNumericValue l \<noteq> NaN \<and> is_double (StringNumericValue l)"
proof -
  have "fneg v \<noteq> NaN \<and> is_double (fneg v)" and "v \<noteq> NaN \<and> is_double v"
    if "v = PInf \<or> (\<exists>h. 0 \<le> h \<and> v = Fin h \<and> rnd h = Fin h)" for v
  proof -
    from that show "v \<noteq> NaN \<and> is_double v" by (auto simp: is_double_def)
    from that show "fneg v \<noteq> NaN \<and> is_double (fneg v)"
    proof
      assume "v = PInf"
      then show ?thesis by (simp add: is_double_def)
    next
      assume "\<exists>h. 0 \<le> h \<and> v = Fin h \<and> rnd h = Fin h"
      then obtain h where h: "v = Fin h" "rnd h = Fin h" by blast
      show ?thesis
      proof (cases "h = 0")
        case True
        then show ?thesis using h by (simp add: is_double_def)
      next
        case False
        then have "rnd (- h) = Fin (- h)" using rnd_minus [of h] h(2) by simp
        then show ?thesis using h False by (simp add: is_double_def)
      qed
    qed
  qed
  then show ?thesis
    using unsigned_value_cases by (simp add: StringNumericValue_def)
qed

text \<open>
  Claim C2, amended. For every text the parsing step returns \<^verbatim>\<open>null\<close> or a Number that is not
  \<open>NaN\<close>: a binary64 value, finite or infinite. It returns \<^verbatim>\<open>null\<close> exactly when the text, after
  its leading white space, has no prefix that is a decimal literal of the standard (an
  optional sign, then \<^verbatim>\<open>Infinity\<close> or digits with an optional fraction and exponent); so do the
  empty string and blank text. Otherwise the result is the numeric value of the longest such
  prefix, whatever follows it: an infinity for \<^verbatim>\<open>Infinity\<close>, which is not mapped to \<^verbatim>\<open>null\<close>, and
  for a decimal number the Number nearest to it. A finite result, zero included, only comes
  from text with a digit in it; the text \<^verbatim>\<open>0\<close> gives the Number 0.
\<close>

theorem parseNumber_text:
  "parseNumber (Some s) = map_option StringNumericValue (numeric_prefix (dropWhile is_ws s)) \<and>
   (numeric_prefix t = None \<longleftrightarrow> (\<forall>p. prefix p t \<longrightarrow> \<not> StrDecimalLiteral p)) \<and>
   (numeric_prefix t = Some l \<longleftrightarrow>
      prefix l t \<and> StrDecimalLiteral l \<and>
      (\<forall>p. prefix p t \<and> StrDecimalLiteral p \<longrightarrow> length p \<le> length l)) \<and>
   StringNumericValue l \<noteq> NaN \<and> is_double (StringNumericValue l) \<and>
   parseNumber (Some []) = None \<and>
   (list_all is_ws s \<longrightarrow> parseNumber (Some s) = None) \<and>
   (parseNumber (Some s) = Some v \<and> \<not> is_inf v \<longrightarrow> (\<exists>c\<in>set s. is_digit c)) \<and>
   parseNumber (Some (utf16 ''0'')) = Some (Fin 0)"
proof (intro conjI impI)
  show "parseNumber (Some s) =
      map_option StringNumericValue (numeric_prefix (dropWhile is_ws s))"
    using StringNumericValue_double
    by (simp add: parseNumber_def parseFloat_longest_prefix spec_parseFloat_def isNaN_def
        split: option.splits)
  show "numeric_prefix t = None \<longleftrightarrow> (\<forall>p. prefix p t \<longrightarrow> \<not> StrDecimalLiteral p)"
    and "numeric_prefix t = Some l \<longleftrightarrow>
      prefix l t \<and> StrDecimalLiteral l \<and>
      (\<forall>p. prefix p t \<and> StrDecimalLiteral p \<longrightarrow> length p \<le> length l)"
    using numeric_prefix_longest [of t l] by blast+
  show "StringNumericValue l \<noteq> NaN" and "is_double (StringNumericValue l)"
    using StringNumericValue_double [of l] by blast+
  show "parseNumber (Some []) = None" by (rule parseNumber_empty)
  show "parseNumber (Some (utf16 ''0'')) = Some (Fin 0)" by (rule parseNumber_0)
next
  assume "list_all is_ws s"
  then have d: "dropWhile is_ws s = []" by (simp add: list_all_iff)
  have "parseFloat s = NaN"
    unfolding parseFloat_def d by (simp add: fraction_part_def utf16_def)
  then show "parseNumber (Some s) = None" by (simp add: parseNumber_def isNaN_def)
next
  assume "parseNumber (Some s) = Some v \<and> \<not> is_inf v"
  then have "parseFloat s \<noteq> NaN \<and> \<not> is_inf (parseFloat s)"
    by (auto simp: parseNumber_def isNaN_def Let_def split: if_splits)
  then show "\<exists>c\<in>set s. is_digit c" using parseFloat_digit by blast
qed

lemma numeric_prefix_examples:
  "numeric_prefix (utf16 ''12abc'') = Some (utf16 ''12'')"
  "numeric_prefix (utf16 ''-abc5'') = None"
  "numeric_prefix (utf16 ''12e1'') = Some (utf16 ''12e1'')"
  "numeric_prefix (utf16 ''Infinity'') = Some (utf16 ''Infinity'')"
  by code_simp+

lemma literal_examples:
  "StrDecimalLiteral (utf16 ''12'')" "\<not> StrDecimalLiteral (utf16 ''12abc'')"
  "\<not> StrDecimalLiteral (utf16 ''-'')"
  by code_simp+

lemma value_examples:
  "StringNumericValue (utf16 ''12'') = Fin 12"
  "StringNumericValue (utf16 ''12e1'') = Fin 120"
  "StringNumericValue (utf16 ''Infinity'') = PInf"
  using rnd_int [of 12] rnd_int [of 120]
  by (simp_all add: StringNumericValue_def unsigned_value_def mv_unsigned_def mv_signed_integer_def
      digits_val_def digit_val_def is_exponent_indicator_def utf16_def Let_def)

lemma trim_examples:
  "dropWhile is_ws (utf16 '' 12abc'') = utf16 ''12abc''"
  "dropWhile is_ws (utf16 ''-abc5'') = utf16 ''-abc5''"
  "dropWhile is_ws (utf16 ''12e1'') = utf16 ''12e1''"
  "dropWhile is_ws (utf16 ''Infinity'') = utf16 ''Infinity''"
  "list_all is_ws [0x2003, 0xFEFF]"
  by (simp_all add: is_ws_def utf16_def)

theorem parseNumber_text_witness:
  "parseNumber (Some (utf16 '' 12abc'')) = Some (Fin 12) \<and>
   numeric_prefix (utf16 ''12abc'') = Some (utf16 ''12'') \<and>
   prefix (utf16 ''12'') (utf16 ''12abc'') \<and> StrDecimalLiteral (utf16 ''12'') \<and>
   StringNumericValue (utf16 ''12'') = Fin 12 \<and>
   parseNumber (Some (utf16 ''12e1'')) = Some (Fin 120) \<and>
   parseNumber (Some (utf16 ''-abc5'')) = None \<and>
   numeric_prefix (utf16 ''-abc5'') = None \<and>
   prefix (utf16 ''-'') (utf16 ''-abc5'') \<and> \<not> StrDecimalLiteral (utf16 ''-'') \<and>
   list_all is_ws [0x2003, 0xFEFF] \<and> parseNumber (Some [0x2003, 0xFEFF]) = None \<and>
   parseNumber (Some (utf16 ''0'')) = Some (Fin 0) \<and> \<not> is_inf (Fin 0) \<and>
   (\<exists>c\<in>set (utf16 ''0''). is_digit c) \<and>
   parseNumber (Some (utf16 ''Infinity'')) = Some PInf"
proof -
  have a: "parseNumber (Some (utf16 '' 12abc'')) = Some (Fin 12)"
    using parseNumber_text [where s = "utf16 '' 12abc''"]
    by (simp only: trim_examples numeric_prefix_examples value_examples option.map)
  have b: "prefix (utf16 ''12'') (utf16 ''12abc'') \<and> StrDecimalLiteral (utf16 ''12'')"
    using parseNumber_text [where t = "utf16 ''12abc''" and l = "utf16 ''12''"]
      numeric_prefix_examples(1) by blast
  have c: "parseNumber (Some (utf16 ''12e1'')) = Some (Fin 120)"
    using parseNumber_text [where s = "utf16 ''12e1''"]
    by (simp only: trim_examples numeric_prefix_examples value_examples option.map)
  have d: "parseNumber (Some (utf16 ''-abc5'')) = None"
    using parseNumber_text [where s = "utf16 ''-abc5''"]
    by (simp only: trim_examples numeric_prefix_examples option.map)
  have p: "prefix (utf16 ''-'') (utf16 ''-abc5'')" by (simp add: utf16_def)
  have e: "\<not> StrDecimalLiteral (utf16 ''-'')"
    using parseNumber_text [where t = "utf16 ''-abc5''"] numeric_prefix_examples(2) p by blast
  have f: "parseNumber (Some [0x2003, 0xFEFF]) = None"
    using parseNumber_text [where s = "[0x2003, 0xFEFF]"] trim_examples(5) by blast
  have z: "parseNumber (Some (utf16 ''0'')) = Some (Fin 0)"
    using parseNumber_text by blast
  have "\<not> is_inf (Fin 0)" by (simp add: is_inf_def)
  then have g: "\<exists>c\<in>set (utf16 ''0''). is_digit c"
    using parseNumber_text [where s = "utf16 ''0''" and v = "Fin 0"] z by blast
  have h: "parseNumber (Some (utf16 ''Infinity'')) = Some PInf"
    using parseNumber_text [where s = "utf16 ''Infinity''"]
    by (simp only: trim_examples numeric_prefix_examples value_examples option.map)
  show ?thesis
    using a b c d e f g h p z numeric_prefix_examples(1,2) value_examples(1) trim_examples(5)
    by (simp add: is_inf_def)
qed

text \<open>
  Claim C2 as stated fails: the text \<^verbatim>\<open>Infinity\<close> parses to a non-finite Number and the result
  is that Number, not the invalid marker; and the text \<^verbatim>\<open>12abc\<close>, which is not a number,
  gives the Number 12 and not the invalid marker.
\<close>

theorem parseNumber_infinity_counterexample:
  "parseNumber (Some (utf16 ''Infinity'')) = Some PInf \<and> is_inf PInf \<and>
   parseNumber (Some (utf16 ''Infinity'')) \<noteq> None \<and>
   \<not> StrDecimalLiteral (utf16 ''12abc'') \<and>
   parseNumber (Some (utf16 ''12abc'')) = Some (Fin 12) \<and>
   parseNumber (Some (utf16 ''12abc'')) \<noteq> None"
  using literal_examples(2) by (simp add: parseNumber_Infinity parseNumber_12abc is_inf_def)

end
